theory Spec2Isabelle
  imports Main "HOL-Library.Word"
begin

unbundle bit_operations_syntax

section \<open>The session connection of webtransport-go (conn.go)\<close>

text \<open>
  The development embeds \<^verbatim>\<open>conn.go\<close>: the session object \<^verbatim>\<open>Conn\<close>, its constructor,
  the goroutine that watches the control stream, the two accept queues and the
  open operations.  Go values that may be \<^verbatim>\<open>nil\<close> are options (\<open>None\<close> is \<^verbatim>\<open>nil\<close>);
  a call that can be resolved in several ways by Go's \<^verbatim>\<open>select\<close> returns the set of
  all its possible outcomes; the goroutine started by \<^verbatim>\<open>newConn\<close> is a program
  counter that advances by the steps of a labelled transition relation.
\<close>

subsection \<open>Values of the environment\<close>

type_synonym byte = "8 word"

text \<open>
  Go's \<^verbatim>\<open>error\<close> values.  \<open>errorString\<close> stands for an error of the environment with
  its message; \<open>wrapError\<close> is the value \<^verbatim>\<open>fmt.Errorf\<close> builds for a format with
  \<^verbatim>\<open>%w\<close>: a message and the wrapped error.
\<close>

datatype error = errorString string | wrapError string error

fun Error :: "error \<Rightarrow> string" where
  "Error (errorString s) = s"
| "Error (wrapError msg err) = msg"

fun Unwrap :: "error \<Rightarrow> error option" where
  "Unwrap (errorString s) = None"
| "Unwrap (wrapError msg err) = Some err"

text \<open>\<^verbatim>\<open>fmt.Errorf(prefix + "%w", err)\<close>: the verb is replaced by the message of \<open>err\<close>.\<close>

definition fmt_Errorf_w :: "string \<Rightarrow> error \<Rightarrow> error" where
  "fmt_Errorf_w prefix err = wrapError (prefix @ Error err) err"

text \<open>
  Handles of the transport's streams (\<^verbatim>\<open>quic.Stream\<close>, \<^verbatim>\<open>quic.ReceiveStream\<close>,
  \<^verbatim>\<open>quic.SendStream\<close>) are interface values: \<open>None\<close> is the nil interface, \<open>Some h\<close>
  the stream with identity \<open>h\<close>.
\<close>

type_synonym quic_Stream = "nat option"
type_synonym quic_ReceiveStream = "nat option"
type_synonym quic_SendStream = "nat option"

text \<open>
  A caller's \<^verbatim>\<open>context.Context\<close> as the calls below observe it: \<open>None\<close> while
  \<^verbatim>\<open>ctx.Done()\<close> is open, \<open>Some e\<close> once it is closed, \<open>e\<close> being \<^verbatim>\<open>ctx.Err()\<close>
  (non-nil by the contract of the interface).
\<close>

type_synonym Context = "error option"

text \<open>
  Modelled from the spec: the wrappers \<^verbatim>\<open>newStream\<close>, \<^verbatim>\<open>newReceiveStream\<close> and
  \<^verbatim>\<open>newSendStream\<close> live in a file of the repository that is not part of the
  sources at hand.  The specification says that an opened stream is the raw
  stream wrapped together with the header prefix, and that an accepted stream
  is wrapped with no prefix; the wrappers are therefore constructors that keep
  exactly their arguments.  A wrapper is a freshly built object, never nil.
\<close>

datatype Stream = newStream quic_Stream "byte list"
datatype ReceiveStream = newReceiveStream quic_ReceiveStream
datatype SendStream = newSendStream quic_SendStream "byte list"

text \<open>
  The transport connection \<^verbatim>\<open>qconn\<close> (\<^verbatim>\<open>http3.StreamCreator\<close>) is external.  A value
  of this record is what the transport answers at the moment of one call: a
  raw stream and an error, as Go's pair of results.
\<close>

record StreamCreator =
  qconn_OpenStream :: "quic_Stream \<times> error option"
  qconn_OpenStreamSync :: "Context \<Rightarrow> quic_Stream \<times> error option"
  qconn_OpenUniStream :: "quic_SendStream \<times> error option"
  qconn_OpenUniStreamSync :: "Context \<Rightarrow> quic_SendStream \<times> error option"

subsection \<open>The session object\<close>

text \<open>
  The fields of \<^verbatim>\<open>Conn\<close>.  \<open>ctxDone\<close> tells whether the lifetime context \<^verbatim>\<open>c.ctx\<close> has
  been cancelled, \<open>closed\<close> whether the channel \<^verbatim>\<open>c.closed\<close> has been closed;
  \<open>acceptChan\<close> and \<open>acceptUniChan\<close> are the numbers of tokens buffered in the two
  notification channels, whose capacity is \<open>1\<close>.  The two mutexes only make the
  queue accesses atomic, which they are here by construction.  \<^verbatim>\<open>qconn\<close> and
  \<^verbatim>\<open>requestStr\<close> are handles of the environment: what they answer is an argument
  of the operation or a label of the step that uses them.
\<close>

record Conn =
  sessionID :: "64 word"
  streamHdr :: "byte list"
  uniStreamHdr :: "byte list"
  ctxDone :: bool
  closeErr :: "error option"
  closed :: bool
  acceptChan :: nat
  acceptQueue :: "quic_Stream list"
  acceptUniChan :: nat
  acceptUniQueue :: "quic_ReceiveStream list"

text \<open>
  Where the goroutine of lines 70 to 73 stands: in the loop of \<^verbatim>\<open>handleConn\<close> before
  a read (line 81), after the assignment of line 82 and before \<^verbatim>\<open>close(c.closed)\<close>
  (line 83), after \<^verbatim>\<open>handleConn\<close> has returned and before the deferred \<^verbatim>\<open>ctxCancel()\<close>
  (line 71), or finished.
\<close>

datatype pc = AtRead | AtClose | AtCancel | Exited

record Session =
  conn :: Conn
  handleConn_pc :: pc

text \<open>
  \<^verbatim>\<open>quicvarint.Write\<close> belongs to the transport library.  Its encoder is the
  parameter \<open>varint\<close>: the bytes written for a value, or \<open>None\<close> where the library
  refuses the value (it panics, and so does \<^verbatim>\<open>quicvarint.Len\<close>, on a value outside
  the range of the encoding).  Writing to a \<^verbatim>\<open>bytes.Buffer\<close> appends.
\<close>

definition quicvarint_Write ::
  "(64 word \<Rightarrow> byte list option) \<Rightarrow> byte list \<Rightarrow> 64 word \<Rightarrow> byte list option" where
  "quicvarint_Write varint buf i = map_option (\<lambda>bs. buf @ bs) (varint i)"

text \<open>
  \<^verbatim>\<open>newConn\<close>, lines 48 to 75.  The two tags \<^verbatim>\<open>webTransportUniStreamType\<close> and
  \<^verbatim>\<open>webTransportFrameType\<close> are constants declared elsewhere in the repository and
  are parameters here.  The capacity given to \<^verbatim>\<open>bytes.NewBuffer\<close> does not show in
  the bytes, but computing it calls \<^verbatim>\<open>quicvarint.Len\<close> on the session identifier.
  The result is the new object together with its goroutine, about to read.
\<close>

definition newConn ::
  "(64 word \<Rightarrow> byte list option) \<Rightarrow> 64 word \<Rightarrow> 64 word \<Rightarrow> 64 word \<Rightarrow> Session option" where
  "newConn varint webTransportUniStreamType webTransportFrameType sid =
     (case varint sid of None \<Rightarrow> None | Some _ \<Rightarrow>
      (case quicvarint_Write varint [] webTransportUniStreamType of None \<Rightarrow> None | Some buf1 \<Rightarrow>
       (case quicvarint_Write varint buf1 sid of None \<Rightarrow> None | Some uniHdr \<Rightarrow>
        (case quicvarint_Write varint [] webTransportFrameType of None \<Rightarrow> None | Some buf2 \<Rightarrow>
         (case quicvarint_Write varint buf2 sid of None \<Rightarrow> None | Some hdr \<Rightarrow>
            Some \<lparr> conn = \<lparr> sessionID = sid, streamHdr = hdr, uniStreamHdr = uniHdr,
                            ctxDone = False, closeErr = None, closed = False,
                            acceptChan = 0, acceptQueue = [],
                            acceptUniChan = 0, acceptUniQueue = [] \<rparr>,
                   handleConn_pc = AtRead \<rparr>)))))"

text \<open>\<^verbatim>\<open>isClosed\<close>, lines 89 to 96: a receive on \<^verbatim>\<open>c.closed\<close> that does not block.\<close>

definition isClosed :: "Conn \<Rightarrow> bool" where
  "isClosed c = (if closed c then True else False)"

text \<open>
  \<^verbatim>\<open>addStream\<close> and \<^verbatim>\<open>addUniStream\<close>, lines 98 to 118: append, then send a token
  unless the channel's buffer (capacity \<open>1\<close>) is full.
\<close>

definition addStream :: "quic_Stream \<Rightarrow> Conn \<Rightarrow> Conn" where
  "addStream str c =
     (let c1 = c\<lparr>acceptQueue := acceptQueue c @ [str]\<rparr>
      in if acceptChan c1 < 1 then c1\<lparr>acceptChan := acceptChan c1 + 1\<rparr> else c1)"

definition addUniStream :: "quic_ReceiveStream \<Rightarrow> Conn \<Rightarrow> Conn" where
  "addUniStream str c =
     (let c1 = c\<lparr>acceptUniQueue := acceptUniQueue c @ [str]\<rparr>
      in if acceptUniChan c1 < 1 then c1\<lparr>acceptUniChan := acceptUniChan c1 + 1\<rparr> else c1)"

text \<open>
  What a call does: it returns its pair of results, or it stays blocked in its
  \<^verbatim>\<open>select\<close> because no case is ready.
\<close>

datatype 'a outcome = Returns 'a | Blocks

text \<open>
  \<^verbatim>\<open>AcceptStream\<close>, lines 125 to 148.  \<open>AcceptStream_select\<close> is the \<^verbatim>\<open>select\<close> of lines
  140 to 147, where a blocked call waits and resumes: each ready case
  contributes its outcome, since Go picks any ready case, and the call blocks
  when none is ready.  Receiving from \<^verbatim>\<open>c.acceptChan\<close> takes one token and calls
  \<^verbatim>\<open>AcceptStream\<close> again.  The second component of an outcome is the object as the
  call leaves it.
\<close>

function AcceptStream ::
    "Context \<Rightarrow> Conn \<Rightarrow> ((Stream option \<times> error option) outcome \<times> Conn) set"
  and AcceptStream_select ::
    "Context \<Rightarrow> Conn \<Rightarrow> ((Stream option \<times> error option) outcome \<times> Conn) set" where
  "AcceptStream ctx c =
     (if isClosed c then {(Returns (None, closeErr c), c)}
      else (case acceptQueue c of
              [] \<Rightarrow> AcceptStream_select ctx c
            | str # rest \<Rightarrow>
                (if str \<noteq> None
                 then {(Returns (Some (newStream str []), None), c\<lparr>acceptQueue := rest\<rparr>)}
                 else AcceptStream_select ctx (c\<lparr>acceptQueue := rest\<rparr>))))"
| "AcceptStream_select ctx c =
     (if ctxDone c then {(Returns (None, closeErr c), c)} else {}) \<union>
     (case ctx of Some e \<Rightarrow> {(Returns (None, Some e), c)} | None \<Rightarrow> {}) \<union>
     (if 0 < acceptChan c then AcceptStream ctx (c\<lparr>acceptChan := acceptChan c - 1\<rparr>) else {}) \<union>
     (if \<not> ctxDone c \<and> ctx = None \<and> acceptChan c = 0 then {(Blocks, c)} else {})"
  by pat_completeness auto
termination
  by (relation "measure (\<lambda>x. case x of Inl (ctx, c) \<Rightarrow> 2 * acceptChan c + 1
                                      | Inr (ctx, c) \<Rightarrow> 2 * acceptChan c)") auto

text \<open>\<^verbatim>\<open>AcceptUniStream\<close>, lines 150 to 173: the same on the queue of receive streams.\<close>

function AcceptUniStream ::
    "Context \<Rightarrow> Conn \<Rightarrow> ((ReceiveStream option \<times> error option) outcome \<times> Conn) set"
  and AcceptUniStream_select ::
    "Context \<Rightarrow> Conn \<Rightarrow> ((ReceiveStream option \<times> error option) outcome \<times> Conn) set" where
  "AcceptUniStream ctx c =
     (if isClosed c then {(Returns (None, closeErr c), c)}
      else (case acceptUniQueue c of
              [] \<Rightarrow> AcceptUniStream_select ctx c
            | str # rest \<Rightarrow>
                (if str \<noteq> None
                 then {(Returns (Some (newReceiveStream str), None), c\<lparr>acceptUniQueue := rest\<rparr>)}
                 else AcceptUniStream_select ctx (c\<lparr>acceptUniQueue := rest\<rparr>))))"
| "AcceptUniStream_select ctx c =
     (if ctxDone c then {(Returns (None, closeErr c), c)} else {}) \<union>
     (case ctx of Some e \<Rightarrow> {(Returns (None, Some e), c)} | None \<Rightarrow> {}) \<union>
     (if 0 < acceptUniChan c
      then AcceptUniStream ctx (c\<lparr>acceptUniChan := acceptUniChan c - 1\<rparr>) else {}) \<union>
     (if \<not> ctxDone c \<and> ctx = None \<and> acceptUniChan c = 0 then {(Blocks, c)} else {})"
  by pat_completeness auto
termination
  by (relation "measure (\<lambda>x. case x of Inl (ctx, c) \<Rightarrow> 2 * acceptUniChan c + 1
                                      | Inr (ctx, c) \<Rightarrow> 2 * acceptUniChan c)") auto

text \<open>
  The four open operations, lines 175 to 217.  They read the object and ask the
  transport; they change nothing in the object.
\<close>

definition OpenStream :: "StreamCreator \<Rightarrow> Conn \<Rightarrow> Stream option \<times> error option" where
  "OpenStream qconn c =
     (if isClosed c then (None, closeErr c)
      else (case qconn_OpenStream qconn of (str, err) \<Rightarrow>
              if err \<noteq> None then (None, err)
              else (Some (newStream str (streamHdr c)), None)))"

definition OpenStreamSync ::
  "StreamCreator \<Rightarrow> Context \<Rightarrow> Conn \<Rightarrow> Stream option \<times> error option" where
  "OpenStreamSync qconn ctx c =
     (if isClosed c then (None, closeErr c)
      else (case qconn_OpenStreamSync qconn ctx of (str, err) \<Rightarrow>
              if err \<noteq> None then (None, err)
              else (Some (newStream str (streamHdr c)), None)))"

definition OpenUniStream :: "StreamCreator \<Rightarrow> Conn \<Rightarrow> SendStream option \<times> error option" where
  "OpenUniStream qconn c =
     (if isClosed c then (None, closeErr c)
      else (case qconn_OpenUniStream qconn of (str, err) \<Rightarrow>
              if err \<noteq> None then (None, err)
              else (Some (newSendStream str (uniStreamHdr c)), None)))"

definition OpenUniStreamSync ::
  "StreamCreator \<Rightarrow> Context \<Rightarrow> Conn \<Rightarrow> SendStream option \<times> error option" where
  "OpenUniStreamSync qconn ctx c =
     (if isClosed c then (None, closeErr c)
      else (case qconn_OpenUniStreamSync qconn ctx of (str, err) \<Rightarrow>
              if err \<noteq> None then (None, err)
              else (Some (newSendStream str (uniStreamHdr c)), None)))"

text \<open>\<^verbatim>\<open>Close\<close>, lines 227 to 229: the result and the object afterwards.\<close>

definition Close :: "Conn \<Rightarrow> error option \<times> Conn" where
  "Close c = (None, c)"

subsection \<open>Executions of a session\<close>

text \<open>
  What can happen to a session, one label per atomic step.  The first four are
  the goroutine of \<^verbatim>\<open>newConn\<close>; the next two are the dispatch layer handing over a
  stream; the others are calls of the public operations by any caller, with
  what the transport answered and what the call returned.  An accept call that
  blocked resumes at its \<^verbatim>\<open>select\<close> (\<open>ResumeAcceptStream\<close>), under the caller's
  context as it is by then.
\<close>

datatype event =
    ReadOk
  | ReadErr error
  | CloseClosed
  | CtxCancel
  | AddStream quic_Stream
  | AddUniStream quic_ReceiveStream
  | CallAcceptStream Context "(Stream option \<times> error option) outcome"
  | ResumeAcceptStream Context "(Stream option \<times> error option) outcome"
  | CallAcceptUniStream Context "(ReceiveStream option \<times> error option) outcome"
  | ResumeAcceptUniStream Context "(ReceiveStream option \<times> error option) outcome"
  | CallOpenStream StreamCreator "Stream option \<times> error option"
  | CallOpenStreamSync StreamCreator Context "Stream option \<times> error option"
  | CallOpenUniStream StreamCreator "SendStream option \<times> error option"
  | CallOpenUniStreamSync StreamCreator Context "SendStream option \<times> error option"
  | CallClose "error option"

text \<open>
  \<^verbatim>\<open>handleConn\<close>, lines 77 to 87, and the deferred \<^verbatim>\<open>ctxCancel\<close> of line 71, step by
  step: a read without error loops; a read with error \<open>err\<close> assigns \<^verbatim>\<open>c.closeErr\<close>
  (line 82); then the channel is closed and the function returns (lines 83,
  84); then the lifetime context is cancelled.
\<close>

inductive step :: "Session \<Rightarrow> event \<Rightarrow> Session \<Rightarrow> bool" where
  read_ok:
    "handleConn_pc s = AtRead \<Longrightarrow> step s ReadOk s"
| read_err:
    "handleConn_pc s = AtRead \<Longrightarrow>
     step s (ReadErr err)
       (s\<lparr>conn := (conn s)\<lparr>closeErr := Some (fmt_Errorf_w ''WebTransport session closed: '' err)\<rparr>,
          handleConn_pc := AtClose\<rparr>)"
| close_closed:
    "handleConn_pc s = AtClose \<Longrightarrow>
     step s CloseClosed (s\<lparr>conn := (conn s)\<lparr>closed := True\<rparr>, handleConn_pc := AtCancel\<rparr>)"
| ctx_cancel:
    "handleConn_pc s = AtCancel \<Longrightarrow>
     step s CtxCancel (s\<lparr>conn := (conn s)\<lparr>ctxDone := True\<rparr>, handleConn_pc := Exited\<rparr>)"
| add_stream:
    "step s (AddStream str) (s\<lparr>conn := addStream str (conn s)\<rparr>)"
| add_uni_stream:
    "step s (AddUniStream str) (s\<lparr>conn := addUniStream str (conn s)\<rparr>)"
| accept_stream:
    "(r, c') \<in> AcceptStream ctx (conn s) \<Longrightarrow> step s (CallAcceptStream ctx r) (s\<lparr>conn := c'\<rparr>)"
| resume_accept_stream:
    "(r, c') \<in> AcceptStream_select ctx (conn s) \<Longrightarrow>
     step s (ResumeAcceptStream ctx r) (s\<lparr>conn := c'\<rparr>)"
| accept_uni_stream:
    "(r, c') \<in> AcceptUniStream ctx (conn s) \<Longrightarrow>
     step s (CallAcceptUniStream ctx r) (s\<lparr>conn := c'\<rparr>)"
| resume_accept_uni_stream:
    "(r, c') \<in> AcceptUniStream_select ctx (conn s) \<Longrightarrow>
     step s (ResumeAcceptUniStream ctx r) (s\<lparr>conn := c'\<rparr>)"
| open_stream:
    "step s (CallOpenStream qconn (OpenStream qconn (conn s))) s"
| open_stream_sync:
    "step s (CallOpenStreamSync qconn ctx (OpenStreamSync qconn ctx (conn s))) s"
| open_uni_stream:
    "step s (CallOpenUniStream qconn (OpenUniStream qconn (conn s))) s"
| open_uni_stream_sync:
    "step s (CallOpenUniStreamSync qconn ctx (OpenUniStreamSync qconn ctx (conn s))) s"
| close:
    "step s (CallClose (fst (Close (conn s)))) (s\<lparr>conn := snd (Close (conn s))\<rparr>)"

text \<open>
  An accept call is one step from its entry to its return or to the \<^verbatim>\<open>select\<close>
  where it blocks, and one step more when it resumes there.  What another
  goroutine does between the check of line 126 and the dequeue, or between the
  dequeue and the \<^verbatim>\<open>select\<close>, has the effect of the same step taken just before
  the call or while the call is blocked.
\<close>

text \<open>An execution: the labels of its steps, in order.\<close>

inductive exec :: "Session \<Rightarrow> event list \<Rightarrow> Session \<Rightarrow> bool" where
  exec_nil: "exec s [] s"
| exec_cons: "step s e s1 \<Longrightarrow> exec s1 es s' \<Longrightarrow> exec s (e # es) s'"

text \<open>
  Calls made one after the other, nothing else happening in between: the list
  of what the calls returned and the object afterwards, for each way the calls
  can go.  The list \<open>ctxs\<close> gives the context of each call.
\<close>

fun AcceptStream_calls ::
  "Context list \<Rightarrow> Conn \<Rightarrow> ((Stream option \<times> error option) outcome list \<times> Conn) set" where
  "AcceptStream_calls [] c = {([], c)}"
| "AcceptStream_calls (ctx # ctxs) c =
     (\<Union>(r, c1) \<in> AcceptStream ctx c. (\<lambda>(rs, c2). (r # rs, c2)) ` AcceptStream_calls ctxs c1)"

fun AcceptUniStream_calls ::
  "Context list \<Rightarrow> Conn \<Rightarrow> ((ReceiveStream option \<times> error option) outcome list \<times> Conn) set" where
  "AcceptUniStream_calls [] c = {([], c)}"
| "AcceptUniStream_calls (ctx # ctxs) c =
     (\<Union>(r, c1) \<in> AcceptUniStream ctx c.
        (\<lambda>(rs, c2). (r # rs, c2)) ` AcceptUniStream_calls ctxs c1)"

text \<open>
  An instance of the encoder for concrete sessions: the variable-length
  integers of the transport (RFC 9000, section 16), one, two, four or eight
  bytes with the length in the two highest bits, up to \<open>2 ^ 62 - 1\<close>.
\<close>

definition quic_varint :: "64 word \<Rightarrow> byte list option" where
  "quic_varint i =
     (if i \<le> 63 then Some [ucast i]
      else if i \<le> 16383 then Some [ucast (drop_bit 8 i) OR 0x40, ucast i]
      else if i \<le> 1073741823 then
        Some [ucast (drop_bit 24 i) OR 0x80, ucast (drop_bit 16 i), ucast (drop_bit 8 i), ucast i]
      else if i \<le> 4611686018427387903 then
        Some [ucast (drop_bit 56 i) OR 0xc0, ucast (drop_bit 48 i), ucast (drop_bit 40 i),
              ucast (drop_bit 32 i), ucast (drop_bit 24 i), ucast (drop_bit 16 i),
              ucast (drop_bit 8 i), ucast i]
      else None)"

subsection \<open>Predicates of the proofs\<close>

text \<open>
  What an accept call on the queue of bidirectional streams may change: it takes
  streams off the front of its queue and tokens out of its channel, and leaves
  every other field as it was.  \<open>frame_uni\<close> is the same for the other queue.
\<close>

definition frame_bidi :: "Conn \<Rightarrow> Conn \<Rightarrow> bool" where
  "frame_bidi c c' \<longleftrightarrow>
     sessionID c' = sessionID c \<and> streamHdr c' = streamHdr c \<and> uniStreamHdr c' = uniStreamHdr c \<and>
     ctxDone c' = ctxDone c \<and> closeErr c' = closeErr c \<and> closed c' = closed c \<and>
     acceptUniChan c' = acceptUniChan c \<and> acceptUniQueue c' = acceptUniQueue c \<and>
     acceptChan c' \<le> acceptChan c \<and> (\<exists>k. acceptQueue c' = drop k (acceptQueue c))"

definition frame_uni :: "Conn \<Rightarrow> Conn \<Rightarrow> bool" where
  "frame_uni c c' \<longleftrightarrow>
     sessionID c' = sessionID c \<and> streamHdr c' = streamHdr c \<and> uniStreamHdr c' = uniStreamHdr c \<and>
     ctxDone c' = ctxDone c \<and> closeErr c' = closeErr c \<and> closed c' = closed c \<and>
     acceptChan c' = acceptChan c \<and> acceptQueue c' = acceptQueue c \<and>
     acceptUniChan c' \<le> acceptUniChan c \<and> (\<exists>k. acceptUniQueue c' = drop k (acceptUniQueue c))"

text \<open>
  What an accept call may answer, \<open>queue\<close> being its queue and \<open>wrap\<close> its wrapper:
  it blocks, it fails with the terminal error, it fails with the caller's
  error, or it returns a queued stream.
\<close>

definition accept_result ::
  "Context \<Rightarrow> Conn \<Rightarrow> nat option list \<Rightarrow> (nat option \<Rightarrow> 'a) \<Rightarrow> ('a option \<times> error option) outcome \<Rightarrow> bool" where
  "accept_result ctx c queue wrap r \<longleftrightarrow>
     (r = Blocks \<and> ctx = None \<and> \<not> ctxDone c) \<or>
     (r = Returns (None, closeErr c) \<and> (isClosed c \<or> ctxDone c)) \<or>
     (\<exists>e. ctx = Some e \<and> r = Returns (None, Some e)) \<or>
     (\<exists>h. r = Returns (Some (wrap (Some h)), None) \<and> Some h \<in> set queue \<and> \<not> isClosed c)"

text \<open>
  Go's convention for a pair of results: a value exactly when the error is nil.
\<close>

definition exactly_one :: "'a option \<times> error option \<Rightarrow> bool" where
  "exactly_one res \<longleftrightarrow> (snd res = None \<longrightarrow> fst res \<noteq> None) \<and> (snd res \<noteq> None \<longrightarrow> fst res = None)"

text \<open>
  The invariant of a session: the flags follow the goroutine, the terminal
  error is set from line 82 on and is a wrapper built there, and neither
  channel holds more than its capacity.
\<close>

definition session_inv :: "Session \<Rightarrow> bool" where
  "session_inv s \<longleftrightarrow>
     (closed (conn s) \<longleftrightarrow> handleConn_pc s = AtCancel \<or> handleConn_pc s = Exited) \<and>
     (ctxDone (conn s) \<longleftrightarrow> handleConn_pc s = Exited) \<and>
     (closeErr (conn s) = None \<longleftrightarrow> handleConn_pc s = AtRead) \<and>
     (case closeErr (conn s) of None \<Rightarrow> True
      | Some t \<Rightarrow> (case Unwrap t of None \<Rightarrow> False
                   | Some e \<Rightarrow> t = fmt_Errorf_w ''WebTransport session closed: '' e)) \<and>
     acceptChan (conn s) \<le> 1 \<and> acceptUniChan (conn s) \<le> 1"

text \<open>How far the goroutine has come, and the events that move it.\<close>

fun pc_rank :: "pc \<Rightarrow> nat" where
  "pc_rank AtRead = 0"
| "pc_rank AtClose = 1"
| "pc_rank AtCancel = 2"
| "pc_rank Exited = 3"

fun event_rank :: "event \<Rightarrow> nat" where
  "event_rank (ReadErr err) = 1"
| "event_rank CloseClosed = 2"
| "event_rank CtxCancel = 3"
| "event_rank _ = 0"

subsection \<open>Sample values\<close>

text \<open>
  The session with identifier \<open>17\<close> under the tags \<open>0x54\<close> (unidirectional) and
  \<open>0x41\<close> (bidirectional), a transport that grants every stream, one that
  refuses, and two errors of the environment.
\<close>

definition session17 :: Session where
  "session17 =
     \<lparr> conn = \<lparr> sessionID = 17, streamHdr = [0x40, 0x41, 0x11], uniStreamHdr = [0x40, 0x54, 0x11],
                ctxDone = False, closeErr = None, closed = False,
                acceptChan = 0, acceptQueue = [], acceptUniChan = 0, acceptUniQueue = [] \<rparr>,
       handleConn_pc = AtRead \<rparr>"

definition transport_up :: StreamCreator where
  "transport_up =
     \<lparr> qconn_OpenStream = (Some 7, None), qconn_OpenStreamSync = (\<lambda>ctx. (Some 7, None)),
       qconn_OpenUniStream = (Some 8, None), qconn_OpenUniStreamSync = (\<lambda>ctx. (Some 8, None)) \<rparr>"

definition too_many_streams :: error where
  "too_many_streams = errorString ''too many open streams''"

definition transport_down :: StreamCreator where
  "transport_down =
     \<lparr> qconn_OpenStream = (None, Some too_many_streams),
       qconn_OpenStreamSync = (\<lambda>ctx. (None, Some too_many_streams)),
       qconn_OpenUniStream = (None, Some too_many_streams),
       qconn_OpenUniStreamSync = (\<lambda>ctx. (None, Some too_many_streams)) \<rparr>"

definition context_Canceled :: error where
  "context_Canceled = errorString ''context canceled''"

definition io_EOF :: error where
  "io_EOF = errorString ''EOF''"

text \<open>
  States of that session: after a stream was pushed and accepted (the token of
  the push is still in the channel), after a read failed with \<open>io_EOF\<close>, after
  the channel was closed, and after the lifetime context was cancelled.
\<close>

definition session17_notified :: Session where
  "session17_notified = session17\<lparr>conn := (conn session17)\<lparr>acceptChan := 1\<rparr>\<rparr>"

definition session17_closing :: Session where
  "session17_closing =
     session17\<lparr>conn := (conn session17)
                  \<lparr>closeErr := Some (wrapError ''WebTransport session closed: EOF'' io_EOF)\<rparr>,
               handleConn_pc := AtClose\<rparr>"

definition session17_closed :: Session where
  "session17_closed =
     session17_closing\<lparr>conn := (conn session17_closing)\<lparr>closed := True\<rparr>,
                       handleConn_pc := AtCancel\<rparr>"

definition session17_exited :: Session where
  "session17_exited =
     session17_closed\<lparr>conn := (conn session17_closed)\<lparr>ctxDone := True\<rparr>,
                      handleConn_pc := Exited\<rparr>"

section \<open>Properties\<close>

subsection \<open>Accept calls\<close>

text \<open>
  The equations of the accept functions mention the functions themselves, so
  they are applied where asked for and not by the simplifier on its own.
\<close>

declare AcceptStream.simps [simp del] AcceptStream_select.simps [simp del]
declare AcceptUniStream.simps [simp del] AcceptUniStream_select.simps [simp del]

lemma frame_bidi_refl: "frame_bidi c c"
  unfolding frame_bidi_def by (auto intro: exI [of _ 0])

lemma AcceptStream_frame:
  "(r, c') \<in> AcceptStream ctx c \<longrightarrow> frame_bidi c c'"
  "(r, c') \<in> AcceptStream_select ctx c \<longrightarrow> frame_bidi c c'"
proof (induct ctx c and ctx c rule: AcceptStream_AcceptStream_select.induct)
  case (1 ctx c)
  show ?case
  proof (cases "isClosed c")
    case True
    then show ?thesis by (simp add: AcceptStream.simps [of ctx c] frame_bidi_refl)
  next
    case opn: False
    show ?thesis
    proof (cases "acceptQueue c")
      case Nil
      with opn 1 show ?thesis by (simp add: AcceptStream.simps [of ctx c])
    next
      case (Cons str rest)
      have d: "rest = drop 1 (acceptQueue c)" using Cons by simp
      show ?thesis
      proof (cases str)
        case None
        with opn Cons 1(2) have "(r, c') \<in> AcceptStream ctx c \<longrightarrow> frame_bidi (c\<lparr>acceptQueue := rest\<rparr>) c'"
          by (simp add: AcceptStream.simps [of ctx c])
        then show ?thesis using Cons
          unfolding frame_bidi_def
          by (auto simp: drop_Cons' intro: exI)
      next
        case (Some h)
        with opn Cons show ?thesis
          unfolding frame_bidi_def
          by (auto simp: AcceptStream.simps [of ctx c] intro: exI [of _ 1])
      qed
    qed
  qed
next
  case (2 ctx c)
  show ?case
  proof
    assume m: "(r, c') \<in> AcceptStream_select ctx c"
    then consider "c' = c" | "0 < acceptChan c" "(r, c') \<in> AcceptStream ctx (c\<lparr>acceptChan := acceptChan c - 1\<rparr>)"
      by (auto simp: AcceptStream_select.simps [of ctx c] split: if_splits option.splits)
    then show "frame_bidi c c'"
    proof cases
      case 1
      then show ?thesis by (simp add: frame_bidi_refl)
    next
      case 2
      with "2.hyps" have "frame_bidi (c\<lparr>acceptChan := acceptChan c - 1\<rparr>) c'" by simp
      then show ?thesis unfolding frame_bidi_def by auto
    qed
  qed
qed

lemma frame_uni_refl: "frame_uni c c"
  unfolding frame_uni_def by (auto intro: exI [of _ 0])

lemma AcceptUniStream_frame:
  "(r, c') \<in> AcceptUniStream ctx c \<longrightarrow> frame_uni c c'"
  "(r, c') \<in> AcceptUniStream_select ctx c \<longrightarrow> frame_uni c c'"
proof (induct ctx c and ctx c rule: AcceptUniStream_AcceptUniStream_select.induct)
  case (1 ctx c)
  show ?case
  proof (cases "isClosed c")
    case True
    then show ?thesis by (simp add: AcceptUniStream.simps [of ctx c] frame_uni_refl)
  next
    case opn: False
    show ?thesis
    proof (cases "acceptUniQueue c")
      case Nil
      with opn 1 show ?thesis by (simp add: AcceptUniStream.simps [of ctx c])
    next
      case (Cons str rest)
      show ?thesis
      proof (cases str)
        case None
        with opn Cons 1(2)
        have "(r, c') \<in> AcceptUniStream ctx c \<longrightarrow> frame_uni (c\<lparr>acceptUniQueue := rest\<rparr>) c'"
          by (simp add: AcceptUniStream.simps [of ctx c])
        then show ?thesis using Cons
          unfolding frame_uni_def
          by (auto simp: drop_Cons' intro: exI)
      next
        case (Some h)
        with opn Cons show ?thesis
          unfolding frame_uni_def
          by (auto simp: AcceptUniStream.simps [of ctx c] intro: exI [of _ 1])
      qed
    qed
  qed
next
  case (2 ctx c)
  show ?case
  proof
    assume m: "(r, c') \<in> AcceptUniStream_select ctx c"
    then consider "c' = c"
      | "0 < acceptUniChan c" "(r, c') \<in> AcceptUniStream ctx (c\<lparr>acceptUniChan := acceptUniChan c - 1\<rparr>)"
      by (auto simp: AcceptUniStream_select.simps [of ctx c] split: if_splits option.splits)
    then show "frame_uni c c'"
    proof cases
      case 1
      then show ?thesis by (simp add: frame_uni_refl)
    next
      case 2
      with "2.hyps" have "frame_uni (c\<lparr>acceptUniChan := acceptUniChan c - 1\<rparr>) c'" by simp
      then show ?thesis unfolding frame_uni_def by auto
    qed
  qed
qed

lemma AcceptStream_result:
  "(r, c') \<in> AcceptStream ctx c \<longrightarrow> accept_result ctx c (acceptQueue c) (\<lambda>s. newStream s []) r"
  "(r, c') \<in> AcceptStream_select ctx c \<longrightarrow>
     accept_result ctx c (acceptQueue c) (\<lambda>s. newStream s []) r"
proof (induct ctx c and ctx c rule: AcceptStream_AcceptStream_select.induct)
  case (1 ctx c)
  show ?case
  proof (cases "isClosed c")
    case True
    then show ?thesis by (simp add: AcceptStream.simps [of ctx c] accept_result_def)
  next
    case opn: False
    show ?thesis
    proof (cases "acceptQueue c")
      case Nil
      with opn 1 show ?thesis by (simp add: AcceptStream.simps [of ctx c])
    next
      case (Cons str rest)
      show ?thesis
      proof (cases str)
        case None
        with opn Cons 1(2)
        have "(r, c') \<in> AcceptStream ctx c \<longrightarrow>
              accept_result ctx (c\<lparr>acceptQueue := rest\<rparr>) rest (\<lambda>s. newStream s []) r"
          by (simp add: AcceptStream.simps [of ctx c] isClosed_def)
        then show ?thesis using Cons
          unfolding accept_result_def isClosed_def by auto
      next
        case (Some h)
        with opn Cons show ?thesis
          unfolding accept_result_def
          by (auto simp: AcceptStream.simps [of ctx c])
      qed
    qed
  qed
next
  case (2 ctx c)
  show ?case
  proof (intro impI)
    assume m: "(r, c') \<in> AcceptStream_select ctx c"
    from m consider "r = Returns (None, closeErr c)" "ctxDone c"
      | e where "ctx = Some e" "r = Returns (None, Some e)"
      | "0 < acceptChan c" "(r, c') \<in> AcceptStream ctx (c\<lparr>acceptChan := acceptChan c - 1\<rparr>)"
      | "r = Blocks" "ctx = None" "\<not> ctxDone c"
      by (auto simp: AcceptStream_select.simps [of ctx c] split: if_splits option.splits)
    then show "accept_result ctx c (acceptQueue c) (\<lambda>s. newStream s []) r"
    proof cases
      case 3
      with "2.hyps"
      have "accept_result ctx (c\<lparr>acceptChan := acceptChan c - 1\<rparr>) (acceptQueue c) (\<lambda>s. newStream s []) r"
        by simp
      then show ?thesis unfolding accept_result_def isClosed_def by auto
    qed (auto simp: accept_result_def)
  qed
qed

lemma AcceptUniStream_result:
  "(r, c') \<in> AcceptUniStream ctx c \<longrightarrow> accept_result ctx c (acceptUniQueue c) newReceiveStream r"
  "(r, c') \<in> AcceptUniStream_select ctx c \<longrightarrow>
     accept_result ctx c (acceptUniQueue c) newReceiveStream r"
proof (induct ctx c and ctx c rule: AcceptUniStream_AcceptUniStream_select.induct)
  case (1 ctx c)
  show ?case
  proof (cases "isClosed c")
    case True
    then show ?thesis by (simp add: AcceptUniStream.simps [of ctx c] accept_result_def)
  next
    case opn: False
    show ?thesis
    proof (cases "acceptUniQueue c")
      case Nil
      with opn 1 show ?thesis by (simp add: AcceptUniStream.simps [of ctx c])
    next
      case (Cons str rest)
      show ?thesis
      proof (cases str)
        case None
        with opn Cons 1(2)
        have "(r, c') \<in> AcceptUniStream ctx c \<longrightarrow>
              accept_result ctx (c\<lparr>acceptUniQueue := rest\<rparr>) rest newReceiveStream r"
          by (simp add: AcceptUniStream.simps [of ctx c] isClosed_def)
        then show ?thesis using Cons
          unfolding accept_result_def isClosed_def by auto
      next
        case (Some h)
        with opn Cons show ?thesis
          unfolding accept_result_def
          by (auto simp: AcceptUniStream.simps [of ctx c])
      qed
    qed
  qed
next
  case (2 ctx c)
  show ?case
  proof (intro impI)
    assume m: "(r, c') \<in> AcceptUniStream_select ctx c"
    from m consider "r = Returns (None, closeErr c)" "ctxDone c"
      | e where "ctx = Some e" "r = Returns (None, Some e)"
      | "0 < acceptUniChan c" "(r, c') \<in> AcceptUniStream ctx (c\<lparr>acceptUniChan := acceptUniChan c - 1\<rparr>)"
      | "r = Blocks" "ctx = None" "\<not> ctxDone c"
      by (auto simp: AcceptUniStream_select.simps [of ctx c] split: if_splits option.splits)
    then show "accept_result ctx c (acceptUniQueue c) newReceiveStream r"
    proof cases
      case 3
      with "2.hyps"
      have "accept_result ctx (c\<lparr>acceptUniChan := acceptUniChan c - 1\<rparr>) (acceptUniQueue c) newReceiveStream r"
        by simp
      then show ?thesis unfolding accept_result_def isClosed_def by auto
    qed (auto simp: accept_result_def)
  qed
qed

lemma AcceptStream_closed:
  "isClosed c \<Longrightarrow> AcceptStream ctx c = {(Returns (None, closeErr c), c)}"
  by (simp add: AcceptStream.simps [of ctx c])

lemma AcceptUniStream_closed:
  "isClosed c \<Longrightarrow> AcceptUniStream ctx c = {(Returns (None, closeErr c), c)}"
  by (simp add: AcceptUniStream.simps [of ctx c])

lemma AcceptStream_head:
  "\<not> isClosed c \<Longrightarrow> acceptQueue c = str # rest \<Longrightarrow> str \<noteq> None \<Longrightarrow>
   AcceptStream ctx c = {(Returns (Some (newStream str []), None), c\<lparr>acceptQueue := rest\<rparr>)}"
  by (simp add: AcceptStream.simps [of ctx c])

lemma AcceptUniStream_head:
  "\<not> isClosed c \<Longrightarrow> acceptUniQueue c = str # rest \<Longrightarrow> str \<noteq> None \<Longrightarrow>
   AcceptUniStream ctx c = {(Returns (Some (newReceiveStream str), None), c\<lparr>acceptUniQueue := rest\<rparr>)}"
  by (simp add: AcceptUniStream.simps [of ctx c])

lemma AcceptStream_calls_queue:
  "\<not> isClosed c \<Longrightarrow> acceptQueue c = ps \<Longrightarrow> None \<notin> set ps \<Longrightarrow> length ctxs = length ps \<Longrightarrow>
   AcceptStream_calls ctxs c =
     {(map (\<lambda>p. Returns (Some (newStream p []), None)) ps, c\<lparr>acceptQueue := []\<rparr>)}"
proof (induction ps arbitrary: ctxs c)
  case Nil
  then show ?case by simp
next
  case (Cons p ps)
  from Cons.prems obtain ctx ctxs' where ctxs: "ctxs = ctx # ctxs'" "length ctxs' = length ps"
    by (cases ctxs) auto
  from Cons.prems have p: "p \<noteq> None" by (cases p) simp_all
  let ?c1 = "c\<lparr>acceptQueue := ps\<rparr>"
  have hd: "AcceptStream ctx c = {(Returns (Some (newStream p []), None), ?c1)}"
    using Cons.prems p by (simp add: AcceptStream_head)
  have "AcceptStream_calls ctxs' ?c1 =
          {(map (\<lambda>p. Returns (Some (newStream p []), None)) ps, ?c1\<lparr>acceptQueue := []\<rparr>)}"
    using Cons.prems ctxs by (intro Cons.IH) (auto simp: isClosed_def)
  then show ?case using hd ctxs by simp
qed

lemma AcceptUniStream_calls_queue:
  "\<not> isClosed c \<Longrightarrow> acceptUniQueue c = ps \<Longrightarrow> None \<notin> set ps \<Longrightarrow> length ctxs = length ps \<Longrightarrow>
   AcceptUniStream_calls ctxs c =
     {(map (\<lambda>p. Returns (Some (newReceiveStream p), None)) ps, c\<lparr>acceptUniQueue := []\<rparr>)}"
proof (induction ps arbitrary: ctxs c)
  case Nil
  then show ?case by simp
next
  case (Cons p ps)
  from Cons.prems obtain ctx ctxs' where ctxs: "ctxs = ctx # ctxs'" "length ctxs' = length ps"
    by (cases ctxs) auto
  from Cons.prems have p: "p \<noteq> None" by (cases p) simp_all
  let ?c1 = "c\<lparr>acceptUniQueue := ps\<rparr>"
  have hd: "AcceptUniStream ctx c = {(Returns (Some (newReceiveStream p), None), ?c1)}"
    using Cons.prems p by (simp add: AcceptUniStream_head)
  have "AcceptUniStream_calls ctxs' ?c1 =
          {(map (\<lambda>p. Returns (Some (newReceiveStream p), None)) ps, ?c1\<lparr>acceptUniQueue := []\<rparr>)}"
    using Cons.prems ctxs by (intro Cons.IH) (auto simp: isClosed_def)
  then show ?case using hd ctxs by simp
qed

lemma fold_addStream:
  "acceptQueue (fold addStream ps c) = acceptQueue c @ ps \<and>
   isClosed (fold addStream ps c) = isClosed c \<and>
   acceptUniQueue (fold addStream ps c) = acceptUniQueue c"
  by (induction ps arbitrary: c) (simp_all add: addStream_def Let_def isClosed_def)

lemma fold_addUniStream:
  "acceptUniQueue (fold addUniStream ps c) = acceptUniQueue c @ ps \<and>
   isClosed (fold addUniStream ps c) = isClosed c \<and>
   acceptQueue (fold addUniStream ps c) = acceptQueue c"
  by (induction ps arbitrary: c) (simp_all add: addUniStream_def Let_def isClosed_def)

lemma newConn_inv: "newConn varint tu tb sid = Some s \<Longrightarrow> session_inv s"
  by (auto simp: newConn_def session_inv_def split: option.splits)

lemma step_inv: "step s e s' \<Longrightarrow> session_inv s \<Longrightarrow> session_inv s'"
proof (induction rule: step.induct)
  case (accept_stream r c' ctx s)
  then have "frame_bidi (conn s) c'" by (simp add: AcceptStream_frame)
  with accept_stream show ?case by (auto simp: session_inv_def frame_bidi_def)
next
  case (resume_accept_stream r c' ctx s)
  then have "frame_bidi (conn s) c'" by (simp add: AcceptStream_frame)
  with resume_accept_stream show ?case by (auto simp: session_inv_def frame_bidi_def)
next
  case (accept_uni_stream r c' ctx s)
  then have "frame_uni (conn s) c'" by (simp add: AcceptUniStream_frame)
  with accept_uni_stream show ?case by (auto simp: session_inv_def frame_uni_def)
next
  case (resume_accept_uni_stream r c' ctx s)
  then have "frame_uni (conn s) c'" by (simp add: AcceptUniStream_frame)
  with resume_accept_uni_stream show ?case by (auto simp: session_inv_def frame_uni_def)
qed (auto simp: session_inv_def addStream_def addUniStream_def Let_def Close_def fmt_Errorf_w_def)

lemma exec_inv: "exec s es s' \<Longrightarrow> session_inv s \<Longrightarrow> session_inv s'"
  by (induction rule: exec.induct) (auto dest: step_inv)

lemma reach_inv: "newConn varint tu tb sid = Some s0 \<Longrightarrow> exec s0 es s \<Longrightarrow> session_inv s"
  by (blast intro: exec_inv newConn_inv)

lemma step_static:
  "step s e s' \<Longrightarrow>
   sessionID (conn s') = sessionID (conn s) \<and> streamHdr (conn s') = streamHdr (conn s) \<and>
   uniStreamHdr (conn s') = uniStreamHdr (conn s)"
proof (induction rule: step.induct)
  case (accept_stream r c' ctx s)
  then have "frame_bidi (conn s) c'" by (simp add: AcceptStream_frame)
  then show ?case by (simp add: frame_bidi_def)
next
  case (resume_accept_stream r c' ctx s)
  then have "frame_bidi (conn s) c'" by (simp add: AcceptStream_frame)
  then show ?case by (simp add: frame_bidi_def)
next
  case (accept_uni_stream r c' ctx s)
  then have "frame_uni (conn s) c'" by (simp add: AcceptUniStream_frame)
  then show ?case by (simp add: frame_uni_def)
next
  case (resume_accept_uni_stream r c' ctx s)
  then have "frame_uni (conn s) c'" by (simp add: AcceptUniStream_frame)
  then show ?case by (simp add: frame_uni_def)
qed (simp_all add: addStream_def addUniStream_def Let_def Close_def)

lemma exec_static:
  "exec s es s' \<Longrightarrow>
   sessionID (conn s') = sessionID (conn s) \<and> streamHdr (conn s') = streamHdr (conn s) \<and>
   uniStreamHdr (conn s') = uniStreamHdr (conn s)"
  by (induction rule: exec.induct) (auto dest: step_static)

lemma step_rank:
  "step s e s' \<Longrightarrow>
   (if event_rank e = 0 then pc_rank (handleConn_pc s') = pc_rank (handleConn_pc s)
    else pc_rank (handleConn_pc s') = event_rank e \<and>
         Suc (pc_rank (handleConn_pc s)) = event_rank e)"
  by (induction rule: step.induct) simp_all

lemma step_closeErr:
  "step s e s' \<Longrightarrow>
   closeErr (conn s') =
     (case e of ReadErr err \<Rightarrow> Some (fmt_Errorf_w ''WebTransport session closed: '' err)
      | _ \<Rightarrow> closeErr (conn s))"
proof (induction rule: step.induct)
  case (accept_stream r c' ctx s)
  then have "frame_bidi (conn s) c'" by (simp add: AcceptStream_frame)
  then show ?case by (simp add: frame_bidi_def)
next
  case (resume_accept_stream r c' ctx s)
  then have "frame_bidi (conn s) c'" by (simp add: AcceptStream_frame)
  then show ?case by (simp add: frame_bidi_def)
next
  case (accept_uni_stream r c' ctx s)
  then have "frame_uni (conn s) c'" by (simp add: AcceptUniStream_frame)
  then show ?case by (simp add: frame_uni_def)
next
  case (resume_accept_uni_stream r c' ctx s)
  then have "frame_uni (conn s) c'" by (simp add: AcceptUniStream_frame)
  then show ?case by (simp add: frame_uni_def)
qed (simp_all add: addStream_def addUniStream_def Let_def Close_def)

lemma exec_rank:
  "exec s es s' \<Longrightarrow>
   pc_rank (handleConn_pc s) \<le> pc_rank (handleConn_pc s') \<and>
   (\<forall>k>0. length (filter (\<lambda>e. event_rank e = k) es) =
      (if pc_rank (handleConn_pc s) < k \<and> k \<le> pc_rank (handleConn_pc s') then 1 else 0))"
proof (induction rule: exec.induct)
  case (exec_nil s)
  then show ?case by auto
next
  case (exec_cons s e s1 es s')
  note st = step_rank [OF exec_cons.hyps(1)]
  from exec_cons.IH have mono: "pc_rank (handleConn_pc s1) \<le> pc_rank (handleConn_pc s')"
    by simp
  show ?case
  proof (intro conjI allI impI)
    show "pc_rank (handleConn_pc s) \<le> pc_rank (handleConn_pc s')"
      using st mono by (auto split: if_splits)
  next
    fix k :: nat
    assume k: "0 < k"
    with exec_cons.IH
    have ih: "length (filter (\<lambda>e. event_rank e = k) es) =
                (if pc_rank (handleConn_pc s1) < k \<and> k \<le> pc_rank (handleConn_pc s') then 1 else 0)"
      by blast
    show "length (filter (\<lambda>e. event_rank e = k) (e # es)) =
            (if pc_rank (handleConn_pc s) < k \<and> k \<le> pc_rank (handleConn_pc s') then 1 else 0)"
      using st mono ih k by (auto split: if_splits)
  qed
qed

lemma exec_closeErr_stable:
  "exec s es s' \<Longrightarrow> handleConn_pc s \<noteq> AtRead \<Longrightarrow> closeErr (conn s') = closeErr (conn s)"
proof (induction rule: exec.induct)
  case (exec_nil s)
  then show ?case by simp
next
  case (exec_cons s e s1 es s')
  from exec_cons.prems have pos: "0 < pc_rank (handleConn_pc s)"
    by (cases "handleConn_pc s") simp_all
  with step_rank [OF exec_cons.hyps(1)] have "0 < pc_rank (handleConn_pc s1)"
    by (auto split: if_splits)
  then have n1: "handleConn_pc s1 \<noteq> AtRead" by auto
  from pos step_rank [OF exec_cons.hyps(1)] have "event_rank e \<noteq> 1"
    by (auto split: if_splits)
  then have "closeErr (conn s1) = closeErr (conn s)"
    using step_closeErr [OF exec_cons.hyps(1)] by (cases e) simp_all
  with exec_cons.IH [OF n1] show ?case by simp
qed

lemma exec_closeErr_cause:
  "exec s es s' \<Longrightarrow> ReadErr err \<in> set es \<Longrightarrow>
   closeErr (conn s') = Some (fmt_Errorf_w ''WebTransport session closed: '' err)"
proof (induction rule: exec.induct)
  case (exec_nil s)
  then show ?case by simp
next
  case (exec_cons s e s1 es s')
  show ?case
  proof (cases "ReadErr err \<in> set es")
    case True
    then show ?thesis by (rule exec_cons.IH)
  next
    case False
    with exec_cons.prems have e: "e = ReadErr err" by simp
    with step_rank [OF exec_cons.hyps(1)] have "pc_rank (handleConn_pc s1) = 1" by simp
    then have "handleConn_pc s1 \<noteq> AtRead" by auto
    from exec_closeErr_stable [OF exec_cons.hyps(2) this]
         step_closeErr [OF exec_cons.hyps(1)] e
    show ?thesis by simp
  qed
qed

lemma exec_append: "exec s es s1 \<Longrightarrow> exec s1 es' s' \<Longrightarrow> exec s (es @ es') s'"
  by (induction rule: exec.induct) (auto intro: exec.intros)

lemma quic_varint_samples:
  "quic_varint 17 = Some [0x11]" "quic_varint 0x54 = Some [0x40, 0x54]"
  "quic_varint 0x41 = Some [0x40, 0x41]"
  by (simp_all add: quic_varint_def)

lemma newConn_17: "newConn quic_varint 0x54 0x41 17 = Some session17"
  by (simp add: newConn_def quicvarint_Write_def quic_varint_samples session17_def)

subsection \<open>Consequences of the invariant\<close>

lemma newConn_pc: "newConn varint tu tb sid = Some s \<Longrightarrow> handleConn_pc s = AtRead"
  by (auto simp: newConn_def split: option.splits)

lemma newConn_headers:
  "newConn varint tu tb sid = Some s \<Longrightarrow>
   \<exists>u b n. varint tu = Some u \<and> varint tb = Some b \<and> varint sid = Some n \<and>
     sessionID (conn s) = sid \<and> streamHdr (conn s) = b @ n \<and> uniStreamHdr (conn s) = u @ n"
  by (auto simp: newConn_def quicvarint_Write_def split: option.splits)

lemma inv_closed_closeErr:
  "session_inv s \<Longrightarrow> isClosed (conn s) \<or> ctxDone (conn s) \<Longrightarrow> closeErr (conn s) \<noteq> None"
  by (auto simp: session_inv_def isClosed_def)

lemma inv_closed_rank: "session_inv s \<Longrightarrow> isClosed (conn s) \<longleftrightarrow> 2 \<le> pc_rank (handleConn_pc s)"
  by (cases "handleConn_pc s") (auto simp: session_inv_def isClosed_def)

lemma inv_ctxDone_rank: "session_inv s \<Longrightarrow> ctxDone (conn s) \<longleftrightarrow> 3 \<le> pc_rank (handleConn_pc s)"
  by (cases "handleConn_pc s") (auto simp: session_inv_def)

lemma inv_closeErr_shape:
  "session_inv s \<Longrightarrow> closeErr (conn s) = Some t \<Longrightarrow>
   \<exists>e0. t = fmt_Errorf_w ''WebTransport session closed: '' e0"
  by (auto simp: session_inv_def split: option.splits)

lemma event_rank_eq:
  "event_rank e = 1 \<longleftrightarrow> (\<exists>err. e = ReadErr err)"
  "event_rank e = 2 \<longleftrightarrow> e = CloseClosed"
  "event_rank e = 3 \<longleftrightarrow> e = CtxCancel"
  by (cases e; simp)+

lemma exec_count:
  "exec s es s' \<Longrightarrow> 0 < k \<Longrightarrow>
   length (filter (\<lambda>e. event_rank e = k) es) =
     (if pc_rank (handleConn_pc s) < k \<and> k \<le> pc_rank (handleConn_pc s') then 1 else 0)"
  using exec_rank by blast

lemma exec_mono: "exec s es s' \<Longrightarrow> pc_rank (handleConn_pc s) \<le> pc_rank (handleConn_pc s')"
  using exec_rank by blast

lemma exec_none_after:
  assumes "exec s es s'" and "0 < k" and "k \<le> pc_rank (handleConn_pc s)"
  shows "\<forall>e \<in> set es. event_rank e \<noteq> k"
proof -
  from exec_count [OF assms(1,2)] assms(3)
  have "length (filter (\<lambda>e. event_rank e = k) es) = 0" by simp
  then show ?thesis by (simp add: filter_empty_conv)
qed

lemma exec_seen:
  assumes "exec s es s'" and "e \<in> set es" and "0 < event_rank e"
  shows "event_rank e \<le> pc_rank (handleConn_pc s')"
proof (rule ccontr)
  assume "\<not> event_rank e \<le> pc_rank (handleConn_pc s')"
  with exec_count [OF assms(1,3)]
  have "length (filter (\<lambda>x. event_rank x = event_rank e) es) = 0" by simp
  with assms(2) show False by (auto simp: filter_empty_conv)
qed

lemma closed_ops:
  assumes "isClosed c"
  shows "AcceptStream ctx c = {(Returns (None, closeErr c), c)}"
    and "AcceptUniStream ctx c = {(Returns (None, closeErr c), c)}"
    and "OpenStream qconn c = (None, closeErr c)"
    and "OpenStreamSync qconn ctx c = (None, closeErr c)"
    and "OpenUniStream qconn c = (None, closeErr c)"
    and "OpenUniStreamSync qconn ctx c = (None, closeErr c)"
  using assms
  by (simp_all add: AcceptStream_closed AcceptUniStream_closed OpenStream_def OpenStreamSync_def
        OpenUniStream_def OpenUniStreamSync_def)

lemma closed_ops_all:
  assumes "isClosed c"
  shows "AcceptStream ctx c = {(Returns (None, closeErr c), c)} \<and>
         AcceptUniStream ctx c = {(Returns (None, closeErr c), c)} \<and>
         OpenStream qconn c = (None, closeErr c) \<and>
         OpenStreamSync qconn ctx c = (None, closeErr c) \<and>
         OpenUniStream qconn c = (None, closeErr c) \<and>
         OpenUniStreamSync qconn ctx c = (None, closeErr c)"
  using closed_ops [OF assms] by simp

lemma accept_result_exactly_one:
  assumes "accept_result ctx c queue wrap r" and "isClosed c \<or> ctxDone c \<longrightarrow> closeErr c \<noteq> None"
    and "r = Returns res"
  shows "exactly_one res"
  using assms unfolding accept_result_def exactly_one_def by auto

lemma select_cancelled:
  assumes "\<not> isClosed c" and "\<not> ctxDone c" and "acceptQueue c = []" and "acceptChan c \<le> 1"
  shows "AcceptStream (Some e) c =
           (if acceptChan c = 0 then {(Returns (None, Some e), c)}
            else {(Returns (None, Some e), c), (Returns (None, Some e), c\<lparr>acceptChan := 0\<rparr>)})"
proof (cases "acceptChan c = 0")
  case True
  with assms show ?thesis
    by (simp add: AcceptStream.simps [of _ c] AcceptStream_select.simps [of _ c])
next
  case False
  with assms(4) have one: "acceptChan c = 1" by simp
  let ?c0 = "c\<lparr>acceptChan := 0\<rparr>"
  have "AcceptStream (Some e) ?c0 = {(Returns (None, Some e), ?c0)}"
    using assms
    by (auto simp: AcceptStream.simps [of _ ?c0] AcceptStream_select.simps [of _ ?c0] isClosed_def)
  with assms one show ?thesis
    by (simp add: AcceptStream.simps [of _ c] AcceptStream_select.simps [of _ c] insert_commute)
qed

lemma select_uni_cancelled:
  assumes "\<not> isClosed c" and "\<not> ctxDone c" and "acceptUniQueue c = []" and "acceptUniChan c \<le> 1"
  shows "AcceptUniStream (Some e) c =
           (if acceptUniChan c = 0 then {(Returns (None, Some e), c)}
            else {(Returns (None, Some e), c), (Returns (None, Some e), c\<lparr>acceptUniChan := 0\<rparr>)})"
proof (cases "acceptUniChan c = 0")
  case True
  with assms show ?thesis
    by (simp add: AcceptUniStream.simps [of _ c] AcceptUniStream_select.simps [of _ c])
next
  case False
  with assms(4) have one: "acceptUniChan c = 1" by simp
  let ?c0 = "c\<lparr>acceptUniChan := 0\<rparr>"
  have "AcceptUniStream (Some e) ?c0 = {(Returns (None, Some e), ?c0)}"
    using assms
    by (auto simp: AcceptUniStream.simps [of _ ?c0] AcceptUniStream_select.simps [of _ ?c0]
          isClosed_def)
  with assms one show ?thesis
    by (simp add: AcceptUniStream.simps [of _ c] AcceptUniStream_select.simps [of _ c]
          insert_commute)
qed

lemma resumed_cancelled:
  assumes "\<not> isClosed c" and "\<not> ctxDone c" and "acceptQueue c = []" and "acceptChan c \<le> 1"
  shows "AcceptStream_select (Some e) c = AcceptStream (Some e) c"
  using assms by (simp add: AcceptStream.simps [of _ c])

lemma resumed_uni_cancelled:
  assumes "\<not> isClosed c" and "\<not> ctxDone c" and "acceptUniQueue c = []" and "acceptUniChan c \<le> 1"
  shows "AcceptUniStream_select (Some e) c = AcceptUniStream (Some e) c"
  using assms by (simp add: AcceptUniStream.simps [of _ c])

subsection \<open>Sample executions\<close>

lemmas samples = session17_def session17_notified_def session17_closing_def session17_closed_def
  session17_exited_def io_EOF_def context_Canceled_def transport_up_def transport_down_def
  too_many_streams_def

lemma step_17_add: "step session17 (AddStream (Some 1))
    (session17\<lparr>conn := (conn session17)\<lparr>acceptChan := 1, acceptQueue := [Some 1]\<rparr>\<rparr>)"
  using step.add_stream [of session17 "Some 1"]
  by (simp add: session17_def addStream_def Let_def)

lemma step_17_accept:
  "step (session17\<lparr>conn := (conn session17)\<lparr>acceptChan := 1, acceptQueue := [Some 1]\<rparr>\<rparr>)
     (CallAcceptStream None (Returns (Some (newStream (Some 1) []), None))) session17_notified"
  using step.accept_stream [of "Returns (Some (newStream (Some 1) []), None)"
      "(conn session17)\<lparr>acceptChan := 1\<rparr>" None
      "session17\<lparr>conn := (conn session17)\<lparr>acceptChan := 1, acceptQueue := [Some 1]\<rparr>\<rparr>"]
  by (simp add: session17_def session17_notified_def AcceptStream.simps isClosed_def)

lemma run_notified:
  "exec session17
     [AddStream (Some 1), CallAcceptStream None (Returns (Some (newStream (Some 1) []), None))]
     session17_notified"
  by (rule exec_cons [OF step_17_add exec_cons [OF step_17_accept exec_nil]])

lemma step_17_read_ok: "step session17 ReadOk session17"
  by (rule step.read_ok) (simp add: session17_def)

lemma step_17_read_err: "step session17 (ReadErr io_EOF) session17_closing"
  using step.read_err [of session17 io_EOF]
  by (simp add: session17_def session17_closing_def fmt_Errorf_w_def io_EOF_def)

lemma step_17_close: "step session17_closing CloseClosed session17_closed"
  using step.close_closed [of session17_closing]
  by (simp add: session17_def session17_closing_def session17_closed_def)

lemma step_17_cancel: "step session17_closed CtxCancel session17_exited"
  using step.ctx_cancel [of session17_closed]
  by (simp add: session17_def session17_closing_def session17_closed_def session17_exited_def)

lemma run_closing: "exec session17 [ReadOk, ReadErr io_EOF] session17_closing"
  by (rule exec_cons [OF step_17_read_ok exec_cons [OF step_17_read_err exec_nil]])

lemma run_closed: "exec session17 [ReadOk, ReadErr io_EOF, CloseClosed] session17_closed"
  by (rule exec_cons [OF step_17_read_ok exec_cons [OF step_17_read_err
        exec_cons [OF step_17_close exec_nil]]])

lemma run_exited:
  "exec session17 [ReadOk, ReadErr io_EOF, CloseClosed, CtxCancel] session17_exited"
  by (rule exec_cons [OF step_17_read_ok exec_cons [OF step_17_read_err
        exec_cons [OF step_17_close exec_cons [OF step_17_cancel exec_nil]]]])

lemma step_exited_close: "step session17_exited (CallClose None) session17_exited"
  using step.close [of session17_exited] by (simp add: Close_def)

lemma step_exited_open:
  "step session17_exited
     (CallOpenStream transport_up
        (None, Some (wrapError ''WebTransport session closed: EOF'' io_EOF)))
     session17_exited"
  using step.open_stream [of session17_exited transport_up]
  by (simp add: OpenStream_def isClosed_def samples)

lemma run_after_exit:
  "exec session17_exited
     [CallClose None,
      CallOpenStream transport_up
        (None, Some (wrapError ''WebTransport session closed: EOF'' io_EOF))]
     session17_exited"
  by (rule exec_cons [OF step_exited_close exec_cons [OF step_exited_open exec_nil]])

lemma run_after_close: "exec session17_closed [CtxCancel] session17_exited"
  by (rule exec_cons [OF step_17_cancel exec_nil])

subsection \<open>The claims\<close>

text \<open>
  C1.  On an open session whose queue is empty, the streams \<open>ps\<close> (none of them
  nil) are pushed by \<^verbatim>\<open>addStream\<close>, then as many \<^verbatim>\<open>AcceptStream\<close> calls are made, each
  under its own context.  The calls can go one way only: they return the pushed
  streams in the order of the pushes, each once, and leave the queue empty.  The
  same holds for \<^verbatim>\<open>addUniStream\<close> and \<^verbatim>\<open>AcceptUniStream\<close>.
\<close>

theorem accept_fifo:
  assumes "\<not> isClosed c" and "None \<notin> set ps" and "length ctxs = length ps"
  shows "(acceptQueue c = [] \<longrightarrow>
           AcceptStream_calls ctxs (fold addStream ps c) =
             {(map (\<lambda>p. Returns (Some (newStream p []), None)) ps,
               (fold addStream ps c)\<lparr>acceptQueue := []\<rparr>)}) \<and>
         (acceptUniQueue c = [] \<longrightarrow>
           AcceptUniStream_calls ctxs (fold addUniStream ps c) =
             {(map (\<lambda>p. Returns (Some (newReceiveStream p), None)) ps,
               (fold addUniStream ps c)\<lparr>acceptUniQueue := []\<rparr>)})"
proof (intro conjI impI)
  assume "acceptQueue c = []"
  with assms show "AcceptStream_calls ctxs (fold addStream ps c) =
             {(map (\<lambda>p. Returns (Some (newStream p []), None)) ps,
               (fold addStream ps c)\<lparr>acceptQueue := []\<rparr>)}"
    by (intro AcceptStream_calls_queue) (simp_all add: fold_addStream)
next
  assume "acceptUniQueue c = []"
  with assms show "AcceptUniStream_calls ctxs (fold addUniStream ps c) =
             {(map (\<lambda>p. Returns (Some (newReceiveStream p), None)) ps,
               (fold addUniStream ps c)\<lparr>acceptUniQueue := []\<rparr>)}"
    by (intro AcceptUniStream_calls_queue) (simp_all add: fold_addUniStream)
qed

theorem accept_fifo_witness:
  "\<not> isClosed (conn session17) \<and> None \<notin> set [Some 1, Some (2::nat)] \<and>
   length [None, Some context_Canceled] = length [Some 1, Some (2::nat)] \<and>
   acceptQueue (conn session17) = [] \<and> acceptUniQueue (conn session17) = [] \<and>
   AcceptStream_calls [None, Some context_Canceled]
       (fold addStream [Some 1, Some 2] (conn session17)) =
     {([Returns (Some (newStream (Some 1) []), None), Returns (Some (newStream (Some 2) []), None)],
       (conn session17)\<lparr>acceptChan := 1\<rparr>)} \<and>
   AcceptUniStream_calls [None, Some context_Canceled]
       (fold addUniStream [Some 1, Some 2] (conn session17)) =
     {([Returns (Some (newReceiveStream (Some 1)), None),
        Returns (Some (newReceiveStream (Some 2)), None)],
       (conn session17)\<lparr>acceptUniChan := 1\<rparr>)}"
  using accept_fifo [of "conn session17" "[Some 1, Some 2]" "[None, Some context_Canceled]"]
  by (simp add: session17_def isClosed_def addStream_def addUniStream_def Let_def)

text \<open>
  C2.  For a session built by \<^verbatim>\<open>newConn\<close> with identifier \<open>N\<close>, the header of
  bidirectional streams is the encoding of the bidirectional tag followed by the
  encoding of \<open>N\<close>, and the header of unidirectional streams is the encoding of the
  unidirectional tag followed by the encoding of \<open>N\<close>.  Both are set by the
  constructor and are the same in every state the session reaches; every stream
  the open session opens in a direction carries exactly the header of that
  direction.
\<close>

theorem header_prefix:
  assumes "newConn varint tagUni tagBidi N = Some s0" and "exec s0 es s"
  shows "\<exists>u b n. varint tagUni = Some u \<and> varint tagBidi = Some b \<and> varint N = Some n \<and>
           streamHdr (conn s0) = b @ n \<and> uniStreamHdr (conn s0) = u @ n \<and>
           streamHdr (conn s) = b @ n \<and> uniStreamHdr (conn s) = u @ n \<and>
           (\<forall>qconn ctx str. \<not> isClosed (conn s) \<longrightarrow>
              (qconn_OpenStream qconn = (str, None) \<longrightarrow>
                 OpenStream qconn (conn s) = (Some (newStream str (b @ n)), None)) \<and>
              (qconn_OpenStreamSync qconn ctx = (str, None) \<longrightarrow>
                 OpenStreamSync qconn ctx (conn s) = (Some (newStream str (b @ n)), None)) \<and>
              (qconn_OpenUniStream qconn = (str, None) \<longrightarrow>
                 OpenUniStream qconn (conn s) = (Some (newSendStream str (u @ n)), None)) \<and>
              (qconn_OpenUniStreamSync qconn ctx = (str, None) \<longrightarrow>
                 OpenUniStreamSync qconn ctx (conn s) = (Some (newSendStream str (u @ n)), None)))"
proof -
  from newConn_headers [OF assms(1)] obtain u b n where
    enc: "varint tagUni = Some u" "varint tagBidi = Some b" "varint N = Some n" and
    h0: "streamHdr (conn s0) = b @ n" "uniStreamHdr (conn s0) = u @ n"
    by blast
  from exec_static [OF assms(2)] h0
  have h: "streamHdr (conn s) = b @ n" "uniStreamHdr (conn s) = u @ n" by simp_all
  have "OpenStream qconn (conn s) = (Some (newStream str (b @ n)), None)"
    if "\<not> isClosed (conn s)" "qconn_OpenStream qconn = (str, None)" for qconn str
    using that h by (simp add: OpenStream_def)
  moreover have "OpenStreamSync qconn ctx (conn s) = (Some (newStream str (b @ n)), None)"
    if "\<not> isClosed (conn s)" "qconn_OpenStreamSync qconn ctx = (str, None)" for qconn ctx str
    using that h by (simp add: OpenStreamSync_def)
  moreover have "OpenUniStream qconn (conn s) = (Some (newSendStream str (u @ n)), None)"
    if "\<not> isClosed (conn s)" "qconn_OpenUniStream qconn = (str, None)" for qconn str
    using that h by (simp add: OpenUniStream_def)
  moreover have "OpenUniStreamSync qconn ctx (conn s) = (Some (newSendStream str (u @ n)), None)"
    if "\<not> isClosed (conn s)" "qconn_OpenUniStreamSync qconn ctx = (str, None)" for qconn ctx str
    using that h by (simp add: OpenUniStreamSync_def)
  ultimately show ?thesis using enc h0 h by blast
qed

theorem header_prefix_witness:
  "newConn quic_varint 0x54 0x41 17 = Some session17 \<and>
   exec session17
     [AddStream (Some 1), CallAcceptStream None (Returns (Some (newStream (Some 1) []), None))]
     session17_notified \<and>
   \<not> isClosed (conn session17_notified) \<and>
   qconn_OpenStream transport_up = (Some 7, None) \<and>
   qconn_OpenStreamSync transport_up None = (Some 7, None) \<and>
   qconn_OpenUniStream transport_up = (Some 8, None) \<and>
   qconn_OpenUniStreamSync transport_up None = (Some 8, None) \<and>
   streamHdr (conn session17_notified) = [0x40, 0x41, 0x11] \<and>
   uniStreamHdr (conn session17_notified) = [0x40, 0x54, 0x11] \<and>
   OpenStream transport_up (conn session17_notified) =
     (Some (newStream (Some 7) [0x40, 0x41, 0x11]), None) \<and>
   OpenStreamSync transport_up None (conn session17_notified) =
     (Some (newStream (Some 7) [0x40, 0x41, 0x11]), None) \<and>
   OpenUniStream transport_up (conn session17_notified) =
     (Some (newSendStream (Some 8) [0x40, 0x54, 0x11]), None) \<and>
   OpenUniStreamSync transport_up None (conn session17_notified) =
     (Some (newSendStream (Some 8) [0x40, 0x54, 0x11]), None)"
proof -
  have o: "\<not> isClosed (conn session17_notified)" by (simp add: isClosed_def samples)
  have t: "qconn_OpenStream transport_up = (Some 7, None)"
    "qconn_OpenStreamSync transport_up None = (Some 7, None)"
    "qconn_OpenUniStream transport_up = (Some 8, None)"
    "qconn_OpenUniStreamSync transport_up None = (Some 8, None)"
    by (simp_all add: transport_up_def)
  from header_prefix [OF newConn_17 run_notified] obtain u b n where
    enc: "quic_varint 0x54 = Some u" "quic_varint 0x41 = Some b" "quic_varint 17 = Some n" and
    h: "streamHdr (conn session17_notified) = b @ n" "uniStreamHdr (conn session17_notified) = u @ n" and
    opens: "\<And>qconn ctx str. \<not> isClosed (conn session17_notified) \<longrightarrow>
              (qconn_OpenStream qconn = (str, None) \<longrightarrow>
                 OpenStream qconn (conn session17_notified) = (Some (newStream str (b @ n)), None)) \<and>
              (qconn_OpenStreamSync qconn ctx = (str, None) \<longrightarrow>
                 OpenStreamSync qconn ctx (conn session17_notified) = (Some (newStream str (b @ n)), None)) \<and>
              (qconn_OpenUniStream qconn = (str, None) \<longrightarrow>
                 OpenUniStream qconn (conn session17_notified) = (Some (newSendStream str (u @ n)), None)) \<and>
              (qconn_OpenUniStreamSync qconn ctx = (str, None) \<longrightarrow>
                 OpenUniStreamSync qconn ctx (conn session17_notified) = (Some (newSendStream str (u @ n)), None))"
    by blast
  from enc have ubn: "u = [0x40, 0x54]" "b = [0x40, 0x41]" "n = [0x11]"
    by (simp_all add: quic_varint_samples)
  from opens [of transport_up "Some 7" None] opens [of transport_up "Some 8" None] o t h ubn
  show ?thesis using newConn_17 run_notified by simp
qed

text \<open>
  C3, amended.  The read of the control stream returns the error \<open>err\<close> and
  \<^verbatim>\<open>handleConn\<close> has run its error branch to the end (lines 81 to 84: the labels
  \<open>ReadErr err\<close> and \<open>CloseClosed\<close>), so that the closed signal has fired.  Then the
  session has recorded the wrapper of \<open>err\<close> as its terminal error, this
  is the only read error of the whole execution, and in every state reached
  afterwards each of \<^verbatim>\<open>AcceptStream\<close>, \<^verbatim>\<open>AcceptUniStream\<close>, \<^verbatim>\<open>OpenStream\<close>,
  \<^verbatim>\<open>OpenStreamSync\<close>, \<^verbatim>\<open>OpenUniStream\<close> and \<^verbatim>\<open>OpenUniStreamSync\<close>, whatever its
  arguments, returns no stream and that same error.
\<close>

theorem read_error_terminal:
  assumes "newConn varint tagUni tagBidi N = Some s0" and "exec s0 es s"
    and "ReadErr err \<in> set es" and "CloseClosed \<in> set es" and "exec s es' s'"
  shows "closeErr (conn s) = Some (fmt_Errorf_w ''WebTransport session closed: '' err) \<and>
         closeErr (conn s') = closeErr (conn s) \<and>
         length (filter (\<lambda>e. \<exists>x. e = ReadErr x) (es @ es')) = 1 \<and>
         (\<forall>ctx qconn.
            AcceptStream ctx (conn s') = {(Returns (None, closeErr (conn s)), conn s')} \<and>
            AcceptUniStream ctx (conn s') = {(Returns (None, closeErr (conn s)), conn s')} \<and>
            OpenStream qconn (conn s') = (None, closeErr (conn s)) \<and>
            OpenStreamSync qconn ctx (conn s') = (None, closeErr (conn s)) \<and>
            OpenUniStream qconn (conn s') = (None, closeErr (conn s)) \<and>
            OpenUniStreamSync qconn ctx (conn s') = (None, closeErr (conn s)))"
proof -
  have all: "exec s0 (es @ es') s'" using assms(2,5) by (rule exec_append)
  have inv: "session_inv s" "session_inv s'"
    using assms(1,2) all by (auto intro: reach_inv)
  have cause: "closeErr (conn s) = Some (fmt_Errorf_w ''WebTransport session closed: '' err)"
    using assms(2,3) by (rule exec_closeErr_cause)
  have "ReadErr err \<in> set (es @ es')" using assms(3) by simp
  with all have cause': "closeErr (conn s') = Some (fmt_Errorf_w ''WebTransport session closed: '' err)"
    by (rule exec_closeErr_cause)
  have "event_rank CloseClosed \<le> pc_rank (handleConn_pc s)"
    using assms(2,4) by (intro exec_seen) simp_all
  then have r2: "2 \<le> pc_rank (handleConn_pc s)" by simp
  with exec_mono [OF assms(5)] have "2 \<le> pc_rank (handleConn_pc s')" by simp
  with inv have closed': "isClosed (conn s')" by (simp add: inv_closed_rank)
  have "length (filter (\<lambda>e. event_rank e = 1) (es @ es')) = 1"
    using exec_count [OF all, of 1] newConn_pc [OF assms(1)] r2 exec_mono [OF assms(5)]
    by simp
  then have once: "length (filter (\<lambda>e. \<exists>x. e = ReadErr x) (es @ es')) = 1"
    by (simp only: event_rank_eq)
  from closed_ops_all [OF closed'] cause cause' once show ?thesis by simp
qed

theorem read_error_terminal_witness:
  "newConn quic_varint 0x54 0x41 17 = Some session17 \<and>
   exec session17 [ReadOk, ReadErr io_EOF, CloseClosed] session17_closed \<and>
   ReadErr io_EOF \<in> set [ReadOk, ReadErr io_EOF, CloseClosed] \<and>
   CloseClosed \<in> set [ReadOk, ReadErr io_EOF, CloseClosed] \<and>
   exec session17_closed [CtxCancel] session17_exited \<and>
   closeErr (conn session17_exited) =
     Some (wrapError ''WebTransport session closed: EOF'' io_EOF) \<and>
   AcceptStream None (conn session17_exited) =
     {(Returns (None, Some (wrapError ''WebTransport session closed: EOF'' io_EOF)),
       conn session17_exited)} \<and>
   AcceptUniStream (Some context_Canceled) (conn session17_exited) =
     {(Returns (None, Some (wrapError ''WebTransport session closed: EOF'' io_EOF)),
       conn session17_exited)} \<and>
   OpenStream transport_up (conn session17_exited) =
     (None, Some (wrapError ''WebTransport session closed: EOF'' io_EOF)) \<and>
   OpenUniStreamSync transport_up None (conn session17_exited) =
     (None, Some (wrapError ''WebTransport session closed: EOF'' io_EOF))"
proof -
  have m: "ReadErr io_EOF \<in> set [ReadOk, ReadErr io_EOF, CloseClosed]"
    "CloseClosed \<in> set [ReadOk, ReadErr io_EOF, CloseClosed]" by simp_all
  have e: "fmt_Errorf_w ''WebTransport session closed: '' io_EOF =
             wrapError ''WebTransport session closed: EOF'' io_EOF"
    by (simp add: fmt_Errorf_w_def io_EOF_def)
  from read_error_terminal [OF newConn_17 run_closed m run_after_close]
  have "closeErr (conn session17_closed) = Some (wrapError ''WebTransport session closed: EOF'' io_EOF)"
    and "closeErr (conn session17_exited) = closeErr (conn session17_closed)"
    and "\<And>ctx qconn.
            AcceptStream ctx (conn session17_exited) =
              {(Returns (None, closeErr (conn session17_closed)), conn session17_exited)} \<and>
            AcceptUniStream ctx (conn session17_exited) =
              {(Returns (None, closeErr (conn session17_closed)), conn session17_exited)} \<and>
            OpenStream qconn (conn session17_exited) = (None, closeErr (conn session17_closed)) \<and>
            OpenStreamSync qconn ctx (conn session17_exited) = (None, closeErr (conn session17_closed)) \<and>
            OpenUniStream qconn (conn session17_exited) = (None, closeErr (conn session17_closed)) \<and>
            OpenUniStreamSync qconn ctx (conn session17_exited) =
              (None, closeErr (conn session17_closed))"
    unfolding e by blast+
  then show ?thesis using newConn_17 run_closed run_after_close m by simp
qed

text \<open>
  C3 as stated counts from the moment the read returns its error.  Line 82
  records the error and line 83 closes the channel, and the operations test the
  channel only: on the session \<open>17\<close>, after the read has failed with \<open>io_EOF\<close> and
  the error is recorded but the channel not yet closed, the session is still
  open, \<^verbatim>\<open>OpenStream\<close> and \<^verbatim>\<open>OpenUniStream\<close> return streams, \<^verbatim>\<open>AcceptStream\<close> waits, and
  a cancelled \<^verbatim>\<open>AcceptUniStream\<close> returns the caller's error, not the terminal one.
\<close>

theorem open_between_record_and_close:
  "newConn quic_varint 0x54 0x41 17 = Some session17 \<and>
   exec session17 [ReadOk, ReadErr io_EOF] session17_closing \<and>
   closeErr (conn session17_closing) =
     Some (wrapError ''WebTransport session closed: EOF'' io_EOF) \<and>
   \<not> isClosed (conn session17_closing) \<and>
   OpenStream transport_up (conn session17_closing) =
     (Some (newStream (Some 7) [0x40, 0x41, 0x11]), None) \<and>
   OpenUniStream transport_up (conn session17_closing) =
     (Some (newSendStream (Some 8) [0x40, 0x54, 0x11]), None) \<and>
   AcceptStream None (conn session17_closing) = {(Blocks, conn session17_closing)} \<and>
   AcceptUniStream (Some context_Canceled) (conn session17_closing) =
     {(Returns (None, Some context_Canceled), conn session17_closing)}"
proof -
  have "closeErr (conn session17_closing) =
          Some (wrapError ''WebTransport session closed: EOF'' io_EOF)"
    and "\<not> isClosed (conn session17_closing)"
    and "OpenStream transport_up (conn session17_closing) =
          (Some (newStream (Some 7) [0x40, 0x41, 0x11]), None)"
    and "OpenUniStream transport_up (conn session17_closing) =
          (Some (newSendStream (Some 8) [0x40, 0x54, 0x11]), None)"
    and "AcceptStream None (conn session17_closing) = {(Blocks, conn session17_closing)}"
    and "AcceptUniStream (Some context_Canceled) (conn session17_closing) =
          {(Returns (None, Some context_Canceled), conn session17_closing)}"
    by (simp_all add: isClosed_def OpenStream_def OpenUniStream_def AcceptStream.simps
          AcceptStream_select.simps AcceptUniStream.simps AcceptUniStream_select.simps
          session17_def session17_closing_def transport_up_def)
  with newConn_17 run_closing show ?thesis by simp
qed

text \<open>
  C4.  A stream \<open>str\<close> (not nil) is pushed by \<^verbatim>\<open>addStream\<close> on an open session while no
  accept call is under way.  The push appends the stream to the queue and leaves
  a token in the notification channel.  Accept calls made afterwards, one for
  each stream queued before and one more, can go one way only: they return the
  streams queued before and then, from the last call, the pushed stream.
\<close>

theorem push_then_accept:
  assumes "\<not> isClosed c" and "None \<notin> set (acceptQueue c)" and "str \<noteq> None"
    and "acceptChan c \<le> 1" and "length ctxs = length (acceptQueue c)"
  shows "acceptQueue (addStream str c) = acceptQueue c @ [str] \<and>
         acceptChan (addStream str c) = 1 \<and>
         AcceptStream_calls (ctxs @ [ctx]) (addStream str c) =
           {(map (\<lambda>p. Returns (Some (newStream p []), None)) (acceptQueue c) @
               [Returns (Some (newStream str []), None)],
             (addStream str c)\<lparr>acceptQueue := []\<rparr>)}"
proof -
  have q: "acceptQueue (addStream str c) = acceptQueue c @ [str]"
    by (simp add: addStream_def Let_def)
  have t: "acceptChan (addStream str c) = 1"
    using assms(4) by (simp add: addStream_def Let_def)
  have o: "\<not> isClosed (addStream str c)"
    using assms(1) by (auto simp: addStream_def Let_def isClosed_def)
  have "AcceptStream_calls (ctxs @ [ctx]) (addStream str c) =
          {(map (\<lambda>p. Returns (Some (newStream p []), None)) (acceptQueue c @ [str]),
            (addStream str c)\<lparr>acceptQueue := []\<rparr>)}"
    using o q assms(2,3,5) by (intro AcceptStream_calls_queue) auto
  with q t show ?thesis by simp
qed

theorem push_then_accept_witness:
  "\<not> isClosed ((conn session17)\<lparr>acceptQueue := [Some 1]\<rparr>) \<and>
   None \<notin> set (acceptQueue ((conn session17)\<lparr>acceptQueue := [Some 1]\<rparr>)) \<and>
   Some (2::nat) \<noteq> None \<and>
   acceptChan ((conn session17)\<lparr>acceptQueue := [Some 1]\<rparr>) \<le> 1 \<and>
   length [None :: Context] = length (acceptQueue ((conn session17)\<lparr>acceptQueue := [Some 1]\<rparr>)) \<and>
   acceptQueue (addStream (Some 2) ((conn session17)\<lparr>acceptQueue := [Some 1]\<rparr>)) =
     [Some 1, Some 2] \<and>
   acceptChan (addStream (Some 2) ((conn session17)\<lparr>acceptQueue := [Some 1]\<rparr>)) = 1 \<and>
   AcceptStream_calls [None, None] (addStream (Some 2) ((conn session17)\<lparr>acceptQueue := [Some 1]\<rparr>)) =
     {([Returns (Some (newStream (Some 1) []), None), Returns (Some (newStream (Some 2) []), None)],
       (conn session17)\<lparr>acceptChan := 1\<rparr>)}"
  using push_then_accept [of "(conn session17)\<lparr>acceptQueue := [Some 1]\<rparr>" "Some 2" "[None]" None]
  by (simp add: session17_def isClosed_def addStream_def Let_def)

text \<open>
  C5.  The claim is that \<^verbatim>\<open>Close()\<close> on an open session moves it to the closed
  state, after which every open and accept operation fails with the terminal
  error.  The code of \<^verbatim>\<open>Close\<close> returns nil and touches nothing (the comment at the
  field \<^verbatim>\<open>requestStr\<close> says that the control stream cannot be closed yet): on the
  new session \<open>17\<close> the object after \<^verbatim>\<open>Close()\<close> is the object before, it is not
  closed, \<^verbatim>\<open>OpenStream\<close> still returns a stream and \<^verbatim>\<open>AcceptStream\<close> still waits.
\<close>

theorem close_leaves_session_open:
  "Close (conn session17) = (None, conn session17) \<and>
   step session17 (CallClose None) session17 \<and>
   isClosed (snd (Close (conn session17))) = False \<and>
   OpenStream transport_up (snd (Close (conn session17))) =
     (Some (newStream (Some 7) [0x40, 0x41, 0x11]), None) \<and>
   AcceptStream None (snd (Close (conn session17))) = {(Blocks, conn session17)}"
proof -
  have "step session17 (CallClose None) session17"
    using step.close [of session17] by (simp add: Close_def)
  then show ?thesis
    by (simp add: Close_def isClosed_def OpenStream_def AcceptStream.simps
          AcceptStream_select.simps samples)
qed

text \<open>
  C6, amended.  On an open session whose queue is empty, an accept call whose
  caller's context is cancelled with error \<open>e\<close>, be it as the call begins or while
  it waits at its \<^verbatim>\<open>select\<close>, returns, in each of the ways it can go, no stream and
  the error \<open>e\<close>.  It leaves the object as it was, except that it
  may have taken the token left in the notification channel of its own queue:
  the \<^verbatim>\<open>select\<close> has then two ready cases and may pick the channel first.  The
  error \<open>e\<close> is not the terminal error of the session, which is either nil or a
  wrapper built at line 82, as long as \<open>e\<close> is not itself such a wrapper (the
  errors of a context are not).
\<close>

theorem accept_cancelled:
  assumes "newConn varint tagUni tagBidi N = Some s0" and "exec s0 es s"
    and "\<not> isClosed (conn s)"
  shows "(acceptQueue (conn s) = [] \<longrightarrow>
            AcceptStream (Some e) (conn s) =
              (if acceptChan (conn s) = 0 then {(Returns (None, Some e), conn s)}
               else {(Returns (None, Some e), conn s),
                     (Returns (None, Some e), (conn s)\<lparr>acceptChan := 0\<rparr>)}) \<and>
            AcceptStream_select (Some e) (conn s) = AcceptStream (Some e) (conn s)) \<and>
         (acceptUniQueue (conn s) = [] \<longrightarrow>
            AcceptUniStream (Some e) (conn s) =
              (if acceptUniChan (conn s) = 0 then {(Returns (None, Some e), conn s)}
               else {(Returns (None, Some e), conn s),
                     (Returns (None, Some e), (conn s)\<lparr>acceptUniChan := 0\<rparr>)}) \<and>
            AcceptUniStream_select (Some e) (conn s) = AcceptUniStream (Some e) (conn s)) \<and>
         ((\<forall>e0. e \<noteq> fmt_Errorf_w ''WebTransport session closed: '' e0) \<longrightarrow>
            closeErr (conn s) \<noteq> Some e)"
proof -
  from reach_inv [OF assms(1,2)] have inv: "session_inv s" .
  with assms(3) have nd: "\<not> ctxDone (conn s)"
    by (auto simp: session_inv_def isClosed_def)
  from inv have cap: "acceptChan (conn s) \<le> 1" "acceptUniChan (conn s) \<le> 1"
    by (simp_all add: session_inv_def)
  show ?thesis
    using select_cancelled [OF assms(3) nd _ cap(1)] select_uni_cancelled [OF assms(3) nd _ cap(2)]
      resumed_cancelled [OF assms(3) nd _ cap(1)] resumed_uni_cancelled [OF assms(3) nd _ cap(2)]
      inv_closeErr_shape [OF inv]
    by blast
qed

theorem accept_cancelled_witness:
  "newConn quic_varint 0x54 0x41 17 = Some session17 \<and>
   exec session17
     [AddStream (Some 1), CallAcceptStream None (Returns (Some (newStream (Some 1) []), None))]
     session17_notified \<and>
   \<not> isClosed (conn session17_notified) \<and>
   acceptQueue (conn session17_notified) = [] \<and> acceptUniQueue (conn session17_notified) = [] \<and>
   (\<forall>e0. context_Canceled \<noteq> fmt_Errorf_w ''WebTransport session closed: '' e0) \<and>
   AcceptStream (Some context_Canceled) (conn session17_notified) =
     {(Returns (None, Some context_Canceled), conn session17_notified),
      (Returns (None, Some context_Canceled), conn session17)} \<and>
   AcceptStream_select (Some context_Canceled) (conn session17_notified) =
     {(Returns (None, Some context_Canceled), conn session17_notified),
      (Returns (None, Some context_Canceled), conn session17)} \<and>
   AcceptUniStream (Some context_Canceled) (conn session17_notified) =
     {(Returns (None, Some context_Canceled), conn session17_notified)} \<and>
   AcceptUniStream_select (Some context_Canceled) (conn session17_notified) =
     {(Returns (None, Some context_Canceled), conn session17_notified)} \<and>
   closeErr (conn session17_notified) \<noteq> Some context_Canceled"
proof -
  have o: "\<not> isClosed (conn session17_notified)" by (simp add: isClosed_def samples)
  have q: "acceptQueue (conn session17_notified) = []" "acceptUniQueue (conn session17_notified) = []"
    by (simp_all add: samples)
  have d: "\<forall>e0. context_Canceled \<noteq> fmt_Errorf_w ''WebTransport session closed: '' e0"
    by (simp add: context_Canceled_def fmt_Errorf_w_def)
  have t: "acceptChan (conn session17_notified) = 1" "acceptUniChan (conn session17_notified) = 0"
    "(conn session17_notified)\<lparr>acceptChan := 0\<rparr> = conn session17"
    by (simp_all add: samples)
  from accept_cancelled [OF newConn_17 run_notified o, of context_Canceled] q d t
  show ?thesis using newConn_17 run_notified o by simp
qed

text \<open>
  C6 as stated says that the cancelled call modifies no state.  After a push and
  an accept on the new session \<open>17\<close> the queue is empty and the token of the push
  is still in the channel; a cancelled \<^verbatim>\<open>AcceptStream\<close> can then return the caller's
  error with the token consumed.
\<close>

theorem cancel_consumes_notification:
  "exec session17
     [AddStream (Some 1), CallAcceptStream None (Returns (Some (newStream (Some 1) []), None))]
     session17_notified \<and>
   \<not> isClosed (conn session17_notified) \<and> acceptQueue (conn session17_notified) = [] \<and>
   (Returns (None, Some context_Canceled), (conn session17_notified)\<lparr>acceptChan := 0\<rparr>)
     \<in> AcceptStream (Some context_Canceled) (conn session17_notified) \<and>
   (conn session17_notified)\<lparr>acceptChan := 0\<rparr> \<noteq> conn session17_notified"
proof -
  have "(Returns (None, Some context_Canceled), (conn session17_notified)\<lparr>acceptChan := 0\<rparr>)
     \<in> AcceptStream (Some context_Canceled) (conn session17_notified)"
    by (simp add: AcceptStream.simps AcceptStream_select.simps isClosed_def samples)
  then show ?thesis using run_notified by (simp add: isClosed_def samples)
qed

text \<open>
  C7.  In every state a session reaches, each of \<^verbatim>\<open>OpenStream\<close>, \<^verbatim>\<open>OpenStreamSync\<close>,
  \<^verbatim>\<open>OpenUniStream\<close> and \<^verbatim>\<open>OpenUniStreamSync\<close> returns no stream and the terminal error
  (which is set) when the session is closed, and otherwise, when the transport
  answers with an error \<open>e\<close>, returns no stream and \<open>e\<close> itself.
\<close>

theorem open_errors:
  assumes "newConn varint tagUni tagBidi N = Some s0" and "exec s0 es s"
  shows "(isClosed (conn s) \<longrightarrow>
            (\<exists>t. closeErr (conn s) = Some t \<and>
                 OpenStream qconn (conn s) = (None, Some t) \<and>
                 OpenStreamSync qconn ctx (conn s) = (None, Some t) \<and>
                 OpenUniStream qconn (conn s) = (None, Some t) \<and>
                 OpenUniStreamSync qconn ctx (conn s) = (None, Some t))) \<and>
         (\<not> isClosed (conn s) \<longrightarrow>
            (\<forall>str e.
               (qconn_OpenStream qconn = (str, Some e) \<longrightarrow>
                  OpenStream qconn (conn s) = (None, Some e)) \<and>
               (qconn_OpenStreamSync qconn ctx = (str, Some e) \<longrightarrow>
                  OpenStreamSync qconn ctx (conn s) = (None, Some e)) \<and>
               (qconn_OpenUniStream qconn = (str, Some e) \<longrightarrow>
                  OpenUniStream qconn (conn s) = (None, Some e)) \<and>
               (qconn_OpenUniStreamSync qconn ctx = (str, Some e) \<longrightarrow>
                  OpenUniStreamSync qconn ctx (conn s) = (None, Some e))))"
proof (intro conjI impI)
  assume c: "isClosed (conn s)"
  from reach_inv [OF assms] c obtain t where "closeErr (conn s) = Some t"
    using inv_closed_closeErr by blast
  with closed_ops(3-6) [OF c]
  show "\<exists>t. closeErr (conn s) = Some t \<and>
                 OpenStream qconn (conn s) = (None, Some t) \<and>
                 OpenStreamSync qconn ctx (conn s) = (None, Some t) \<and>
                 OpenUniStream qconn (conn s) = (None, Some t) \<and>
                 OpenUniStreamSync qconn ctx (conn s) = (None, Some t)"
    by simp
next
  assume "\<not> isClosed (conn s)"
  then show "\<forall>str e.
               (qconn_OpenStream qconn = (str, Some e) \<longrightarrow>
                  OpenStream qconn (conn s) = (None, Some e)) \<and>
               (qconn_OpenStreamSync qconn ctx = (str, Some e) \<longrightarrow>
                  OpenStreamSync qconn ctx (conn s) = (None, Some e)) \<and>
               (qconn_OpenUniStream qconn = (str, Some e) \<longrightarrow>
                  OpenUniStream qconn (conn s) = (None, Some e)) \<and>
               (qconn_OpenUniStreamSync qconn ctx = (str, Some e) \<longrightarrow>
                  OpenUniStreamSync qconn ctx (conn s) = (None, Some e))"
    by (simp add: OpenStream_def OpenStreamSync_def OpenUniStream_def OpenUniStreamSync_def)
qed

theorem open_errors_witness:
  "newConn quic_varint 0x54 0x41 17 = Some session17 \<and>
   exec session17 [ReadOk, ReadErr io_EOF, CloseClosed] session17_closed \<and>
   isClosed (conn session17_closed) \<and>
   OpenStream transport_up (conn session17_closed) =
     (None, Some (wrapError ''WebTransport session closed: EOF'' io_EOF)) \<and>
   OpenStreamSync transport_up None (conn session17_closed) =
     (None, Some (wrapError ''WebTransport session closed: EOF'' io_EOF)) \<and>
   OpenUniStream transport_up (conn session17_closed) =
     (None, Some (wrapError ''WebTransport session closed: EOF'' io_EOF)) \<and>
   OpenUniStreamSync transport_up None (conn session17_closed) =
     (None, Some (wrapError ''WebTransport session closed: EOF'' io_EOF)) \<and>
   exec session17
     [AddStream (Some 1), CallAcceptStream None (Returns (Some (newStream (Some 1) []), None))]
     session17_notified \<and>
   \<not> isClosed (conn session17_notified) \<and>
   qconn_OpenStream transport_down = (None, Some too_many_streams) \<and>
   qconn_OpenStreamSync transport_down None = (None, Some too_many_streams) \<and>
   qconn_OpenUniStream transport_down = (None, Some too_many_streams) \<and>
   qconn_OpenUniStreamSync transport_down None = (None, Some too_many_streams) \<and>
   OpenStream transport_down (conn session17_notified) = (None, Some too_many_streams) \<and>
   OpenStreamSync transport_down None (conn session17_notified) = (None, Some too_many_streams) \<and>
   OpenUniStream transport_down (conn session17_notified) = (None, Some too_many_streams) \<and>
   OpenUniStreamSync transport_down None (conn session17_notified) =
     (None, Some too_many_streams)"
proof -
  have c: "isClosed (conn session17_closed)" by (simp add: isClosed_def samples)
  have o: "\<not> isClosed (conn session17_notified)" by (simp add: isClosed_def samples)
  have e: "closeErr (conn session17_closed) =
             Some (wrapError ''WebTransport session closed: EOF'' io_EOF)"
    by (simp add: session17_def session17_closing_def session17_closed_def)
  have t: "qconn_OpenStream transport_down = (None, Some too_many_streams)"
    "qconn_OpenStreamSync transport_down None = (None, Some too_many_streams)"
    "qconn_OpenUniStream transport_down = (None, Some too_many_streams)"
    "qconn_OpenUniStreamSync transport_down None = (None, Some too_many_streams)"
    by (simp_all add: transport_down_def)
  from open_errors [OF newConn_17 run_closed, of transport_up None]
       open_errors [OF newConn_17 run_notified, of transport_down None]
       c o e t newConn_17 run_closed run_notified
  show ?thesis by simp
qed

text \<open>
  C8.  Once the closed signal has fired in an execution of a session, the
  session stays closed in whatever follows, the terminal error is set and keeps
  its value, no read error is recorded and the channel is not closed again: the
  whole execution closes it exactly once.  Once the lifetime context is done it
  stays done and is not cancelled again.
\<close>

theorem closure_irreversible:
  assumes "newConn varint tagUni tagBidi N = Some s0" and "exec s0 es s"
    and "isClosed (conn s)" and "exec s es' s'"
  shows "isClosed (conn s') \<and>
         closeErr (conn s) \<noteq> None \<and> closeErr (conn s') = closeErr (conn s) \<and>
         CloseClosed \<notin> set es' \<and> (\<forall>err. ReadErr err \<notin> set es') \<and>
         length (filter (\<lambda>e. e = CloseClosed) (es @ es')) = 1 \<and>
         (ctxDone (conn s) \<longrightarrow> ctxDone (conn s') \<and> CtxCancel \<notin> set es')"
proof -
  have all: "exec s0 (es @ es') s'" using assms(2,4) by (rule exec_append)
  have inv: "session_inv s" "session_inv s'"
    using assms(1,2) all by (auto intro: reach_inv)
  from inv(1) assms(3) have r2: "2 \<le> pc_rank (handleConn_pc s)" by (simp add: inv_closed_rank)
  with exec_mono [OF assms(4)] have r2': "2 \<le> pc_rank (handleConn_pc s')" by simp
  with inv(2) have closed': "isClosed (conn s')" by (simp add: inv_closed_rank)
  from r2 have "handleConn_pc s \<noteq> AtRead" by auto
  from exec_closeErr_stable [OF assms(4) this]
  have stable: "closeErr (conn s') = closeErr (conn s)" .
  have set: "closeErr (conn s) \<noteq> None"
    using inv(1) assms(3) by (simp add: inv_closed_closeErr)
  from exec_none_after [OF assms(4), of 2] r2 have no_close: "CloseClosed \<notin> set es'"
    by (auto simp: event_rank_eq)
  from exec_none_after [OF assms(4), of 1] r2 have no_read: "\<forall>err. ReadErr err \<notin> set es'"
    by (auto simp: event_rank_eq)
  have "length (filter (\<lambda>e. event_rank e = 2) (es @ es')) = 1"
    using exec_count [OF all, of 2] newConn_pc [OF assms(1)] r2' by simp
  then have once: "length (filter (\<lambda>e. e = CloseClosed) (es @ es')) = 1"
    by (simp only: event_rank_eq)
  have ctx: "ctxDone (conn s') \<and> CtxCancel \<notin> set es'" if "ctxDone (conn s)"
  proof -
    from that inv(1) have r3: "3 \<le> pc_rank (handleConn_pc s)" by (simp add: inv_ctxDone_rank)
    with exec_mono [OF assms(4)] inv(2) have "ctxDone (conn s')" by (simp add: inv_ctxDone_rank)
    moreover from exec_none_after [OF assms(4), of 3] r3 have "CtxCancel \<notin> set es'"
      by (auto simp: event_rank_eq)
    ultimately show ?thesis by simp
  qed
  from closed' set stable no_close no_read once ctx show ?thesis by blast
qed

theorem closure_irreversible_witness:
  "newConn quic_varint 0x54 0x41 17 = Some session17 \<and>
   exec session17 [ReadOk, ReadErr io_EOF, CloseClosed, CtxCancel] session17_exited \<and>
   isClosed (conn session17_exited) \<and> ctxDone (conn session17_exited) \<and>
   exec session17_exited
     [CallClose None,
      CallOpenStream transport_up
        (None, Some (wrapError ''WebTransport session closed: EOF'' io_EOF))]
     session17_exited \<and>
   closeErr (conn session17_exited) \<noteq> None \<and>
   length (filter (\<lambda>e. e = CloseClosed)
     ([ReadOk, ReadErr io_EOF, CloseClosed, CtxCancel] @
      [CallClose None,
       CallOpenStream transport_up
         (None, Some (wrapError ''WebTransport session closed: EOF'' io_EOF))])) = 1"
proof -
  have c: "isClosed (conn session17_exited)" "ctxDone (conn session17_exited)"
    by (simp_all add: isClosed_def samples)
  from closure_irreversible [OF newConn_17 run_exited c(1) run_after_exit]
  show ?thesis using newConn_17 run_exited run_after_exit c by blast
qed

text \<open>
  C9.  In every state a session reaches, the terminal error is set whenever the
  closed signal or the lifetime context has fired, and whatever an open
  operation or an accept call (begun, or resumed at its \<^verbatim>\<open>select\<close>) returns is
  exactly one of a stream and an error: a stream when the error is nil, no stream
  otherwise.
\<close>

theorem one_of_stream_and_error:
  assumes "newConn varint tagUni tagBidi N = Some s0" and "exec s0 es s"
  shows "(isClosed (conn s) \<or> ctxDone (conn s) \<longrightarrow> closeErr (conn s) \<noteq> None) \<and>
         exactly_one (OpenStream qconn (conn s)) \<and>
         exactly_one (OpenStreamSync qconn ctx (conn s)) \<and>
         exactly_one (OpenUniStream qconn (conn s)) \<and>
         exactly_one (OpenUniStreamSync qconn ctx (conn s)) \<and>
         (\<forall>(r, c') \<in> AcceptStream ctx (conn s) \<union> AcceptStream_select ctx (conn s).
            \<forall>res. r = Returns res \<longrightarrow> exactly_one res) \<and>
         (\<forall>(r, c') \<in> AcceptUniStream ctx (conn s) \<union> AcceptUniStream_select ctx (conn s).
            \<forall>res. r = Returns res \<longrightarrow> exactly_one res)"
proof -
  from reach_inv [OF assms] have inv: "session_inv s" .
  then have err: "isClosed (conn s) \<or> ctxDone (conn s) \<longrightarrow> closeErr (conn s) \<noteq> None"
    using inv_closed_closeErr by blast
  have o1: "exactly_one (OpenStream qconn (conn s))"
    using err by (cases "qconn_OpenStream qconn") (auto simp: OpenStream_def exactly_one_def)
  have o2: "exactly_one (OpenStreamSync qconn ctx (conn s))"
    using err by (cases "qconn_OpenStreamSync qconn ctx") (auto simp: OpenStreamSync_def exactly_one_def)
  have o3: "exactly_one (OpenUniStream qconn (conn s))"
    using err by (cases "qconn_OpenUniStream qconn") (auto simp: OpenUniStream_def exactly_one_def)
  have o4: "exactly_one (OpenUniStreamSync qconn ctx (conn s))"
    using err by (cases "qconn_OpenUniStreamSync qconn ctx")
      (auto simp: OpenUniStreamSync_def exactly_one_def)
  have a1: "exactly_one res"
    if "(Returns res, c') \<in> AcceptStream ctx (conn s) \<union> AcceptStream_select ctx (conn s)" for res c'
  proof -
    from that AcceptStream_result [of "Returns res" c' ctx "conn s"]
    have "accept_result ctx (conn s) (acceptQueue (conn s)) (\<lambda>s. newStream s []) (Returns res)"
      by blast
    then show ?thesis using err by (rule accept_result_exactly_one) simp
  qed
  have a2: "exactly_one res"
    if "(Returns res, c') \<in> AcceptUniStream ctx (conn s) \<union> AcceptUniStream_select ctx (conn s)"
    for res c'
  proof -
    from that AcceptUniStream_result [of "Returns res" c' ctx "conn s"]
    have "accept_result ctx (conn s) (acceptUniQueue (conn s)) newReceiveStream (Returns res)"
      by blast
    then show ?thesis using err by (rule accept_result_exactly_one) simp
  qed
  from err o1 o2 o3 o4 a1 a2 show ?thesis by blast
qed

theorem one_of_stream_and_error_witness:
  "newConn quic_varint 0x54 0x41 17 = Some session17 \<and>
   exec session17 [ReadOk, ReadErr io_EOF, CloseClosed] session17_closed \<and>
   isClosed (conn session17_closed) \<and> closeErr (conn session17_closed) \<noteq> None \<and>
   (Returns (None, Some (wrapError ''WebTransport session closed: EOF'' io_EOF)),
      conn session17_closed) \<in> AcceptStream None (conn session17_closed) \<and>
   exactly_one (None :: Stream option, Some (wrapError ''WebTransport session closed: EOF'' io_EOF)) \<and>
   (Returns (None, Some context_Canceled), conn session17_closed)
      \<in> AcceptUniStream_select (Some context_Canceled) (conn session17_closed) \<and>
   exactly_one (None :: ReceiveStream option, Some context_Canceled) \<and>
   exactly_one (OpenStream transport_up (conn session17_closed)) \<and>
   exactly_one (OpenUniStreamSync transport_down None (conn session17_closed))"
proof -
  have c: "isClosed (conn session17_closed)" by (simp add: isClosed_def samples)
  have m1: "(Returns (None, Some (wrapError ''WebTransport session closed: EOF'' io_EOF)),
      conn session17_closed) \<in> AcceptStream None (conn session17_closed)"
    using c by (simp add: AcceptStream_closed session17_def session17_closing_def session17_closed_def)
  have m2: "(Returns (None, Some context_Canceled), conn session17_closed)
      \<in> AcceptUniStream_select (Some context_Canceled) (conn session17_closed)"
    by (simp add: AcceptUniStream_select.simps)
  from one_of_stream_and_error [OF newConn_17 run_closed, of transport_up None]
  have a: "closeErr (conn session17_closed) \<noteq> None"
    "exactly_one (OpenStream transport_up (conn session17_closed))"
    "exactly_one (None :: Stream option, Some (wrapError ''WebTransport session closed: EOF'' io_EOF))"
    using c m1 by blast+
  from one_of_stream_and_error [OF newConn_17 run_closed, of transport_down None]
  have b: "exactly_one (OpenUniStreamSync transport_down None (conn session17_closed))"
    by blast
  from one_of_stream_and_error [OF newConn_17 run_closed, of transport_down "Some context_Canceled"]
  have d: "exactly_one (None :: ReceiveStream option, Some context_Canceled)"
    using m2 by blast
  from a b d c m1 m2 newConn_17 run_closed show ?thesis by simp
qed

text \<open>
  C10.  When the read of the control stream returns the error \<open>err\<close>, the terminal
  error recorded is the wrapper whose message is \<^verbatim>\<open>WebTransport session closed: \<close>
  followed by the message of \<open>err\<close> and whose wrapped error, given back by
  \<^verbatim>\<open>Unwrap\<close>, is \<open>err\<close>.  Once the session is closed, that one value is what every
  accept and open operation returns as its error.
\<close>

theorem terminal_error_wraps_cause:
  assumes "step s (ReadErr err) s1" and "exec s1 es s'" and "isClosed (conn s')"
  shows "\<exists>w. closeErr (conn s1) = Some w \<and> closeErr (conn s') = Some w \<and>
           w = wrapError (''WebTransport session closed: '' @ Error err) err \<and>
           Error w = ''WebTransport session closed: '' @ Error err \<and> Unwrap w = Some err \<and>
           (\<forall>ctx qconn.
              AcceptStream ctx (conn s') = {(Returns (None, Some w), conn s')} \<and>
              AcceptUniStream ctx (conn s') = {(Returns (None, Some w), conn s')} \<and>
              OpenStream qconn (conn s') = (None, Some w) \<and>
              OpenStreamSync qconn ctx (conn s') = (None, Some w) \<and>
              OpenUniStream qconn (conn s') = (None, Some w) \<and>
              OpenUniStreamSync qconn ctx (conn s') = (None, Some w))"
proof -
  let ?w = "wrapError (''WebTransport session closed: '' @ Error err) err"
  from step_closeErr [OF assms(1)] have c1: "closeErr (conn s1) = Some ?w"
    by (simp add: fmt_Errorf_w_def)
  from step_rank [OF assms(1)] have "pc_rank (handleConn_pc s1) = 1" by simp
  then have "handleConn_pc s1 \<noteq> AtRead" by auto
  from exec_closeErr_stable [OF assms(2) this] c1 have c': "closeErr (conn s') = Some ?w"
    by simp
  from closed_ops_all [OF assms(3)] c1 c' show ?thesis by simp
qed

theorem terminal_error_wraps_cause_witness:
  "step session17 (ReadErr io_EOF) session17_closing \<and>
   exec session17_closing [CloseClosed, CtxCancel] session17_exited \<and>
   isClosed (conn session17_exited) \<and>
   closeErr (conn session17_closing) =
     Some (wrapError ''WebTransport session closed: EOF'' (errorString ''EOF'')) \<and>
   closeErr (conn session17_exited) =
     Some (wrapError ''WebTransport session closed: EOF'' (errorString ''EOF'')) \<and>
   Error (wrapError ''WebTransport session closed: EOF'' (errorString ''EOF'')) =
     ''WebTransport session closed: EOF'' \<and>
   Unwrap (wrapError ''WebTransport session closed: EOF'' (errorString ''EOF'')) =
     Some (errorString ''EOF'') \<and>
   AcceptStream None (conn session17_exited) =
     {(Returns (None, Some (wrapError ''WebTransport session closed: EOF'' (errorString ''EOF''))),
       conn session17_exited)} \<and>
   OpenUniStream transport_up (conn session17_exited) =
     (None, Some (wrapError ''WebTransport session closed: EOF'' (errorString ''EOF'')))"
proof -
  have r: "exec session17_closing [CloseClosed, CtxCancel] session17_exited"
    by (rule exec_cons [OF step_17_close exec_cons [OF step_17_cancel exec_nil]])
  have c: "isClosed (conn session17_exited)" by (simp add: isClosed_def samples)
  from terminal_error_wraps_cause [OF step_17_read_err r c]
  show ?thesis using step_17_read_err r c by (auto simp: io_EOF_def)
qed

end
